theory Spec2Isabelle
  imports Complex_Main "HOL-Library.AList"
begin

section \<open>JavaScript numbers\<close>

text \<open>
  The service is TypeScript; every numeric field is a JavaScript \<^verbatim>\<open>number\<close>, an IEEE 754
  binary64 value: a finite real (\<open>Num 0\<close> is the positive zero), the negative zero, an
  infinity or NaN. An arithmetic operation returns the exact result rounded to the nearest
  binary64 value. The exact result comes first (\<open>js_add\<close>, \<open>js_sub\<close>, \<open>js_mul\<close>,
  \<open>js_div\<close>, with the special cases of the standard), the rounding second (\<open>round64\<close>).
\<close>

datatype jsnum = Num real | NegZero | PInf | NInf | NaN

fun js_add :: "jsnum \<Rightarrow> jsnum \<Rightarrow> jsnum" where
  "js_add NaN y = NaN"
| "js_add x NaN = NaN"
| "js_add PInf NInf = NaN"
| "js_add NInf PInf = NaN"
| "js_add PInf y = PInf"
| "js_add x PInf = PInf"
| "js_add NInf y = NInf"
| "js_add x NInf = NInf"
| "js_add NegZero y = y"
| "js_add x NegZero = x"
| "js_add (Num a) (Num b) = Num (a + b)"

fun js_neg :: "jsnum \<Rightarrow> jsnum" where
  "js_neg (Num a) = (if a = 0 then NegZero else Num (- a))"
| "js_neg NegZero = Num 0"
| "js_neg PInf = NInf"
| "js_neg NInf = PInf"
| "js_neg NaN = NaN"

definition js_sub :: "jsnum \<Rightarrow> jsnum \<Rightarrow> jsnum" where
  "js_sub x y = js_add x (js_neg y)"

fun js_abs :: "jsnum \<Rightarrow> jsnum" where
  "js_abs (Num a) = Num \<bar>a\<bar>"
| "js_abs NegZero = Num 0"
| "js_abs PInf = PInf"
| "js_abs NInf = PInf"
| "js_abs NaN = NaN"

text \<open>The sign, and the zeros and infinities, for products and quotients.\<close>

fun isNegative :: "jsnum \<Rightarrow> bool" where
  "isNegative (Num a) = (a < 0)"
| "isNegative NegZero = True"
| "isNegative NInf = True"
| "isNegative x = False"

fun isZero :: "jsnum \<Rightarrow> bool" where
  "isZero (Num a) = (a = 0)"
| "isZero NegZero = True"
| "isZero x = False"

fun isInfinity :: "jsnum \<Rightarrow> bool" where
  "isInfinity PInf = True"
| "isInfinity NInf = True"
| "isInfinity x = False"

definition zeroOf :: "bool \<Rightarrow> jsnum" where
  "zeroOf negative = (if negative then NegZero else Num 0)"

definition infinityOf :: "bool \<Rightarrow> jsnum" where
  "infinityOf negative = (if negative then NInf else PInf)"

definition js_div :: "jsnum \<Rightarrow> jsnum \<Rightarrow> jsnum" where
  "js_div x y =
     (if x = NaN \<or> y = NaN then NaN
      else if (isZero x \<and> isZero y) \<or> (isInfinity x \<and> isInfinity y) then NaN
      else if isZero y \<or> isInfinity x then infinityOf (isNegative x \<noteq> isNegative y)
      else if isZero x \<or> isInfinity y then zeroOf (isNegative x \<noteq> isNegative y)
      else (case (x, y) of (Num a, Num b) \<Rightarrow> Num (a / b) | _ \<Rightarrow> NaN))"

definition js_mul :: "jsnum \<Rightarrow> jsnum \<Rightarrow> jsnum" where
  "js_mul x y =
     (if x = NaN \<or> y = NaN then NaN
      else if (isZero x \<and> isInfinity y) \<or> (isInfinity x \<and> isZero y) then NaN
      else if isInfinity x \<or> isInfinity y then infinityOf (isNegative x \<noteq> isNegative y)
      else if isZero x \<or> isZero y then zeroOf (isNegative x \<noteq> isNegative y)
      else (case (x, y) of (Num a, Num b) \<Rightarrow> Num (a * b) | _ \<Rightarrow> NaN))"

text \<open>Comparisons: every comparison with NaN is false, and the two zeros are equal.\<close>

fun js_lt :: "jsnum \<Rightarrow> jsnum \<Rightarrow> bool" where
  "js_lt NaN y = False"
| "js_lt x NaN = False"
| "js_lt (Num a) (Num b) = (a < b)"
| "js_lt (Num a) NegZero = (a < 0)"
| "js_lt NegZero (Num b) = (0 < b)"
| "js_lt NegZero NegZero = False"
| "js_lt x NInf = False"
| "js_lt PInf y = False"
| "js_lt x y = True"

definition js_gt :: "jsnum \<Rightarrow> jsnum \<Rightarrow> bool" where
  "js_gt x y = js_lt y x"

text \<open>
  Rounding to binary64. A finite binary64 value is an integer multiple of
  \<open>2 powi (e - 52)\<close>, where \<open>e\<close> is the exponent of its binade, from \<open>-1022\<close> (which
  also holds the subnormal values) to \<open>1023\<close>. \<open>binade x\<close> is the greatest such exponent
  with \<open>2 powi e \<le> \<bar>x\<bar>\<close>, and \<open>-1022\<close> when there is none. The quotient of \<open>x\<close> by the unit
  in the last place of its binade is rounded to the nearest integer, a tie to the even one; a
  result that reaches \<open>2 powi 1024\<close> is an infinity, and a negative number that rounds to
  zero gives the negative zero.
\<close>

definition roundHalfEven :: "real \<Rightarrow> int" where
  "roundHalfEven q =
     (let f = \<lfloor>q\<rfloor>; d = q - of_int f
      in if d < 1 / 2 then f else if 1 / 2 < d then f + 1 else if even f then f else f + 1)"

primrec binadeUpTo :: "nat \<Rightarrow> real \<Rightarrow> int" where
  "binadeUpTo 0 x = - 1022"
| "binadeUpTo (Suc n) x =
     (if 2 powi (int (Suc n) - 1022) \<le> \<bar>x\<bar> then int (Suc n) - 1022 else binadeUpTo n x)"

definition binade :: "real \<Rightarrow> int" where
  "binade x = binadeUpTo 2045 x"

definition round64 :: "real \<Rightarrow> jsnum" where
  "round64 x =
     (let ulp = 2 powi (binade x - 52);
          r = of_int (roundHalfEven (x / ulp)) * ulp
      in if 2 powi 1024 \<le> \<bar>r\<bar> then (if 0 < x then PInf else NInf)
         else if r = 0 \<and> x < 0 then NegZero
         else Num r)"

fun fl :: "jsnum \<Rightarrow> jsnum" where
  "fl (Num r) = round64 r"
| "fl x = x"

text \<open>The operators \<^verbatim>\<open>+\<close>, \<^verbatim>\<open>-\<close>, \<^verbatim>\<open>*\<close> and \<^verbatim>\<open>/\<close> of the language.\<close>

definition fl_add :: "jsnum \<Rightarrow> jsnum \<Rightarrow> jsnum" where
  "fl_add x y = fl (js_add x y)"

definition fl_sub :: "jsnum \<Rightarrow> jsnum \<Rightarrow> jsnum" where
  "fl_sub x y = fl (js_sub x y)"

definition fl_mul :: "jsnum \<Rightarrow> jsnum \<Rightarrow> jsnum" where
  "fl_mul x y = fl (js_mul x y)"

definition fl_div :: "jsnum \<Rightarrow> jsnum \<Rightarrow> jsnum" where
  "fl_div x y = fl (js_div x y)"

section \<open>Confidence scoring\<close>

text \<open>
  \<^verbatim>\<open>calculateConfidence(exchange, latency)\<close>: the switch on the exchange name, the
  chain of latency tests in the source's order, and the final clamp. The scores are
  integers; the method reads no field of the service, so the model takes no state.
\<close>

definition calculateConfidence :: "string \<Rightarrow> jsnum \<Rightarrow> int" where
  "calculateConfidence exchange latency =
     (let baseScore =
            (if exchange = ''binance'' then 95
             else if exchange = ''coinbase'' then 90
             else if exchange = ''kraken'' then 80
             else 70);
          baseScore' =
            (if js_lt latency (Num 100) then baseScore + 5
             else if js_gt latency (Num 1000) then baseScore - 10
             else if js_gt latency (Num 500) then baseScore - 5
             else baseScore)
      in max 10 (min 100 baseScore'))"

text \<open>
  The specification's table: the base score of a trust rank, and the adjustment of a
  latency. The band of the \<open>-5\<close> adjustment is read as \<open>500 < latency \<le> 1000\<close>.
\<close>

definition trust_rank_base :: "string \<Rightarrow> int" where
  "trust_rank_base exchange =
     (if exchange = ''binance'' then 95
      else if exchange = ''coinbase'' then 90
      else if exchange = ''kraken'' then 80
      else 70)"

definition latency_adjustment :: "jsnum \<Rightarrow> int" where
  "latency_adjustment latency =
     (case latency of
        Num ms \<Rightarrow>
          (if ms < 100 then 5
           else if 500 < ms \<and> ms \<le> 1000 then - 5
           else if 1000 < ms then - 10
           else 0)
      | NegZero \<Rightarrow> 5
      | PInf \<Rightarrow> - 10
      | NInf \<Rightarrow> 5
      | NaN \<Rightarrow> 0)"

section \<open>Ticks, the service state and the fused cache\<close>

text \<open>
  \<^verbatim>\<open>PriceUpdate\<close> (which extends \<^verbatim>\<open>RealTimePrice\<close>). Prices, timestamps and the 24h
  statistics come from the exchanges' frames and may be any number; the confidence of a
  cached tick is always a result of \<open>calculateConfidence\<close>, an integer.
\<close>

record PriceUpdate =
  symbol :: string
  price :: jsnum
  timestamp :: jsnum
  change24h :: jsnum
  volume24h :: jsnum
  source :: string
  latency :: jsnum
  confidence :: int

datatype ConnectionState = DISCONNECTED | CONNECTING | CONNECTED | RECONNECTING | ERROR

record ConnectionStatus =
  exchange :: string
  state :: ConnectionState
  lastUpdate :: real
  statusLatency :: jsnum
  reconnectAttempts :: nat
  error :: "string option"

text \<open>
  The objects the service holds references to. A socket carries the \<^verbatim>\<open>readyState\<close> the
  browser maintains and the exchange name its four handlers close over; a timer carries the
  delay it was set with, the exchange and attempt number its callback closes over, and
  whether it is still pending.
\<close>

datatype ReadyState = WS_CONNECTING | WS_OPEN | WS_CLOSING | WS_CLOSED

record WebSocket =
  readyState :: ReadyState
  wsExchange :: string

record Timeout =
  delay :: nat
  timerExchange :: string
  timerAttempts :: nat
  pending :: bool

text \<open>
  A callback is identified by a number (its function identity). A price callback is code of
  the service's user: when invoked it may call the service again. What it does is a list of
  calls of the public interface: an unsubscribe function that
  \<^verbatim>\<open>onPriceUpdate(symbol, callback)\<close> or \<^verbatim>\<open>onStatusUpdate(callback)\<close> returned,
  \<^verbatim>\<open>onPriceUpdate\<close> or \<^verbatim>\<open>onStatusUpdate\<close> themselves, \<^verbatim>\<open>disconnect()\<close>
  (also reached through the function \<^verbatim>\<open>subscribe\<close> returns), or \<^verbatim>\<open>subscribe\<close>, of
  which the part before its first \<^verbatim>\<open>await\<close> runs at once (the flag says whether the
  socket could be created). \<^verbatim>\<open>getConnectionStatuses\<close> and \<^verbatim>\<open>getCachedPrices\<close> return
  copies and change nothing. A callback is taken not to write to the tick it is given.
\<close>

datatype action =
    Unsubscribe string nat
  | UnsubscribeStatus nat
  | OnPriceUpdate string nat
  | OnStatusUpdate nat
  | Disconnect
  | SubscribeCalled bool

text \<open>
  The state: the six tables of the class (a JavaScript \<^verbatim>\<open>Map\<close> keeps insertion order,
  so each is an association list), then the environment: the clock \<^verbatim>\<open>Date.now()\<close> reads,
  every socket and timer created so far (by identifier), and the observable effects
  (\<^verbatim>\<open>close\<close> calls, \<^verbatim>\<open>clearTimeout\<close> calls, callback invocations) in the order they happen.

  The arrays of price callbacks are objects that outlive their entry of \<open>priceCallbacks\<close>:
  a delivery iterates the array it fetched from the table even after \<^verbatim>\<open>disconnect()\<close> has
  cleared the table. So the table maps a symbol to the address of its array, and
  \<open>callbackArrays\<close> holds the contents of every array created so far. The array of status
  callbacks is one object for the lifetime of the service.
\<close>

record service =
  connections :: "(string \<times> nat) list"
  connectionStatus :: "(string \<times> ConnectionStatus) list"
  priceCallbacks :: "(string \<times> nat) list"
  statusCallbacks :: "nat list"
  reconnectTimers :: "(string \<times> nat) list"
  priceCache :: "(string \<times> PriceUpdate) list"
  callbackArrays :: "nat list list"
  clock :: real
  sockets :: "WebSocket list"
  timers :: "Timeout list"
  closeCalls :: "nat list"
  clearedTimers :: "nat list"
  priceDelivered :: "(nat \<times> PriceUpdate) list"
  statusDelivered :: "(nat \<times> ConnectionStatus list) list"

text \<open>\<^verbatim>\<open>key.startsWith(prefix)\<close>.\<close>

definition startsWith :: "string \<Rightarrow> string \<Rightarrow> bool" where
  "startsWith key pre = (take (length pre) key = pre)"

text \<open>
  \<^verbatim>\<open>aggregatePriceData(symbol)\<close>. The loop over the cache collects the fresh ticks of the
  symbol in cache order; \<^verbatim>\<open>Array.prototype.sort\<close> is stable, and the comparator
  \<^verbatim>\<open>b.confidence - a.confidence\<close> sorts by descending confidence; \<^verbatim>\<open>reduce\<close> without an
  initial value starts from the first element and adds from left to right; the literal
  \<^verbatim>\<open>0.005\<close> denotes the binary64 value nearest to \<open>5 / 1000\<close>. The method writes no field of
  the service: it returns the state it was given.
\<close>

definition isFresh :: "real \<Rightarrow> PriceUpdate \<Rightarrow> bool" where
  "isFresh now update = js_lt (fl_sub (Num now) (timestamp update)) (Num 30000)"

definition collectSources :: "string \<Rightarrow> real \<Rightarrow> (string \<times> PriceUpdate) list \<Rightarrow> PriceUpdate list" where
  "collectSources symb now cache =
     map snd (filter (\<lambda>(key, update). startsWith key (symb @ ''_'') \<and> isFresh now update) cache)"

definition aggregatePriceData :: "string \<Rightarrow> service \<Rightarrow> PriceUpdate option \<times> service" where
  "aggregatePriceData symb s =
     (case sort_key (\<lambda>u. - confidence u) (collectSources symb (clock s) (priceCache s)) of
        [] \<Rightarrow> (None, s)
      | [primary] \<Rightarrow> (Some primary, s)
      | primary # rest \<Rightarrow>
          (let avgPrice = fl_div (foldl fl_add (price primary) (map price rest))
                                 (Num (real (length (primary # rest))));
               deviation = fl_div (js_abs (fl_sub (price primary) avgPrice)) avgPrice
           in if js_gt deviation (round64 (5 / 1000))
              then (Some (primary\<lparr>price := avgPrice, source := ''aggregated'',
                                    confidence := min 95 (confidence primary + 10)\<rparr>), s)
              else (Some primary, s)))"

text \<open>
  The specification's words for the aggregation, in the arithmetic of the real numbers: the
  highest-confidence tick of a list (the earliest one in cache order when several share the
  highest confidence), the arithmetic mean of the prices, and a price deviating from the mean
  by more than 0.5% of the mean.
\<close>

fun highestConfidence :: "PriceUpdate list \<Rightarrow> PriceUpdate option" where
  "highestConfidence [] = None"
| "highestConfidence (u # us) =
     (case highestConfidence us of
        None \<Rightarrow> Some u
      | Some v \<Rightarrow> if confidence u < confidence v then Some v else Some u)"



text \<open>
  The same in binary64 arithmetic: the mean of the prices added in the order of descending
  confidence (ticks of equal confidence in cache order), every sum and the quotient rounded;
  and the relative deviation from a mean \<open>m\<close>, \<open>\<bar>p - m\<bar> / m\<close> with the difference and the
  quotient rounded, greater than the binary64 value of \<open>0.005\<close>.
\<close>

definition byConfidence :: "PriceUpdate list \<Rightarrow> PriceUpdate list" where
  "byConfidence us = sort_key (\<lambda>u. - confidence u) us"

definition roundedMean :: "PriceUpdate list \<Rightarrow> jsnum" where
  "roundedMean us =
     (case map price (byConfidence us) of
        [] \<Rightarrow> NaN
      | p # ps \<Rightarrow> fl_div (foldl fl_add p ps) (Num (real (length us))))"

definition exceedsThreshold :: "jsnum \<Rightarrow> jsnum \<Rightarrow> bool" where
  "exceedsThreshold p m = js_gt (fl_div (js_abs (fl_sub p m)) m) (round64 (5 / 1000))"

definition aggregatedFrom :: "PriceUpdate \<Rightarrow> jsnum \<Rightarrow> PriceUpdate" where
  "aggregatedFrom primary m =
     primary\<lparr>price := m, source := ''aggregated'',
             confidence := min 95 (confidence primary + 10)\<rparr>"

text \<open>
  The specification's words for the age of a cached tick at a given time, the difference of
  the two times taken in the real numbers.
\<close>

definition ageBelow30s :: "real \<Rightarrow> PriceUpdate \<Rightarrow> bool" where
  "ageBelow30s now u =
     (case js_sub (Num now) (timestamp u) of
        Num age \<Rightarrow> age < 30000 | NegZero \<Rightarrow> True | NInf \<Rightarrow> True | PInf \<Rightarrow> False
      | NaN \<Rightarrow> False)"

definition ageAtLeast30s :: "real \<Rightarrow> PriceUpdate \<Rightarrow> bool" where
  "ageAtLeast30s now u =
     (case js_sub (Num now) (timestamp u) of
        Num age \<Rightarrow> 30000 \<le> age | NegZero \<Rightarrow> False | PInf \<Rightarrow> True | NInf \<Rightarrow> False
      | NaN \<Rightarrow> False)"



definition cacheKeyed :: "(string \<times> PriceUpdate) list \<Rightarrow> bool" where
  "cacheKeyed cache =
     list_all (\<lambda>(key, u). key = symbol u @ ''_'' @ source u
                 \<and> CHR ''_'' \<notin> set (symbol u) \<and> CHR ''_'' \<notin> set (source u)) cache"

section \<open>Shutdown\<close>

text \<open>
  \<^verbatim>\<open>disconnect()\<close>: \<^verbatim>\<open>close\<close> on every connection whose \<^verbatim>\<open>readyState\<close> is \<^verbatim>\<open>OPEN\<close>
  (the browser then sets \<^verbatim>\<open>readyState\<close> to \<^verbatim>\<open>CLOSING\<close>), \<^verbatim>\<open>clearTimeout\<close> on every
  timer of \<open>reconnectTimers\<close>, then every table is emptied. \<^verbatim>\<open>priceCallbacks.clear()\<close>
  empties the table and leaves the arrays as they are; \<^verbatim>\<open>statusCallbacks.length = 0\<close>
  empties the array itself.
\<close>

definition setReadyState :: "nat \<Rightarrow> ReadyState \<Rightarrow> service \<Rightarrow> service" where
  "setReadyState w r s = s\<lparr>sockets := (sockets s)[w := (sockets s ! w)\<lparr>readyState := r\<rparr>]\<rparr>"

definition closeIfOpen :: "service \<Rightarrow> nat \<Rightarrow> service" where
  "closeIfOpen s w =
     (if readyState (sockets s ! w) = WS_OPEN
      then (setReadyState w WS_CLOSING s)\<lparr>closeCalls := closeCalls s @ [w]\<rparr>
      else s)"

definition clearTimeout :: "service \<Rightarrow> nat \<Rightarrow> service" where
  "clearTimeout s t =
     s\<lparr>timers := (timers s)[t := (timers s ! t)\<lparr>pending := False\<rparr>],
       clearedTimers := clearedTimers s @ [t]\<rparr>"

definition disconnect :: "service \<Rightarrow> service" where
  "disconnect s =
     (let s1 = foldl closeIfOpen s (map snd (connections s));
          s2 = foldl clearTimeout s1 (map snd (reconnectTimers s1))
      in s2\<lparr>connections := [], connectionStatus := [], priceCallbacks := [],
            statusCallbacks := [], reconnectTimers := [], priceCache := []\<rparr>)"

section \<open>The connection manager\<close>

text \<open>
  \<^verbatim>\<open>updateConnectionStatus(exchange, state, latency = 0, error?, reconnectAttempts = 0)\<close>
  replaces the exchange's status by a new object and passes all statuses to every status
  callback. The defaults of the source are written out at each call below.
\<close>

definition updateConnectionStatus ::
    "string \<Rightarrow> ConnectionState \<Rightarrow> jsnum \<Rightarrow> string option \<Rightarrow> nat \<Rightarrow> service \<Rightarrow> service" where
  "updateConnectionStatus exch st lat err attempts s =
     (let status = \<lparr>exchange = exch, state = st, lastUpdate = clock s, statusLatency = lat,
                     reconnectAttempts = attempts, error = err\<rparr>;
          s1 = s\<lparr>connectionStatus := AList.update exch status (connectionStatus s)\<rparr>;
          allStatuses = map snd (connectionStatus s1)
      in s1\<lparr>statusDelivered :=
              statusDelivered s1 @ map (\<lambda>callback. (callback, allStatuses)) (statusCallbacks s1)\<rparr>)"

text \<open>
  \<^verbatim>\<open>scheduleReconnection(exchange, symbols)\<close>: the attempt number is read from the
  exchange's current status, the delay is \<^verbatim>\<open>Math.min(1000 * Math.pow(2, attempts - 1), 30000)\<close>,
  and the new timer replaces the exchange's entry of \<open>reconnectTimers\<close>.
\<close>

definition scheduleReconnection :: "string \<Rightarrow> service \<Rightarrow> service" where
  "scheduleReconnection exch s =
     (let attempts = (case map_of (connectionStatus s) exch of
                        Some status \<Rightarrow> reconnectAttempts status + 1
                      | None \<Rightarrow> 1);
          timer = \<lparr>delay = min (1000 * 2 ^ (attempts - 1)) 30000, timerExchange = exch,
                    timerAttempts = attempts, pending = True\<rparr>
      in s\<lparr>timers := timers s @ [timer],
           reconnectTimers := AList.update exch (length (timers s)) (reconnectTimers s)\<rparr>)"

text \<open>
  \<^verbatim>\<open>connectToExchange(exchange, symbols)\<close>. The flag says whether \<^verbatim>\<open>new WebSocket(url)\<close>
  returns a socket or throws (the \<^verbatim>\<open>catch\<close> branch). Sending the subscription message and
  logging are left out.
\<close>

definition connectToExchange :: "string \<Rightarrow> bool \<Rightarrow> service \<Rightarrow> service" where
  "connectToExchange exch created s =
     (let s1 = updateConnectionStatus exch CONNECTING (Num 0) None 0 s
      in if created
         then s1\<lparr>sockets := sockets s1 @ [\<lparr>readyState = WS_CONNECTING, wsExchange = exch\<rparr>],
                 connections := AList.update exch (length (sockets s1)) (connections s1)\<rparr>
         else scheduleReconnection exch
                (updateConnectionStatus exch ERROR (Num 0) (Some ''Connection failed'') 0 s1))"

text \<open>The handlers of socket \<open>w\<close>; the browser sets \<^verbatim>\<open>readyState\<close> before it fires the event.\<close>

definition onopen :: "nat \<Rightarrow> service \<Rightarrow> service" where
  "onopen w s =
     updateConnectionStatus (wsExchange (sockets s ! w)) CONNECTED (Num 0) None 0
       (setReadyState w WS_OPEN s)"

definition onerror :: "nat \<Rightarrow> service \<Rightarrow> service" where
  "onerror w s =
     updateConnectionStatus (wsExchange (sockets s ! w)) ERROR (Num 0) (Some ''WebSocket error'') 0 s"

definition onclose :: "nat \<Rightarrow> int \<Rightarrow> service \<Rightarrow> service" where
  "onclose w code s =
     (let exch = wsExchange (sockets s ! w);
          s1 = updateConnectionStatus exch DISCONNECTED (Num 0) None 0 (setReadyState w WS_CLOSED s)
      in if code \<noteq> 1000 then scheduleReconnection exch s1 else s1)"

text \<open>The callback of timer \<open>t\<close>, set by \<open>scheduleReconnection\<close>.\<close>

definition timerFires :: "nat \<Rightarrow> bool \<Rightarrow> service \<Rightarrow> service" where
  "timerFires t created s =
     (let timer = timers s ! t;
          s1 = s\<lparr>timers := (timers s)[t := timer\<lparr>pending := False\<rparr>]\<rparr>;
          s2 = updateConnectionStatus (timerExchange timer) RECONNECTING (Num 0) (Some [])
                 (timerAttempts timer) s1
      in connectToExchange (timerExchange timer) created s2)"

section \<open>The adapter registry and \<open>subscribe\<close>\<close>

text \<open>The adapter registry: name, priority and symbol map of each exchange, in source order.\<close>

record ExchangeConfig =
  exchangeName :: string
  priority :: nat
  symbolMapping :: "(string \<times> string) list"

definition exchanges :: "ExchangeConfig list" where
  "exchanges =
     [\<lparr>exchangeName = ''binance'', priority = 1,
       symbolMapping =
         [(''BTC'', ''BTCUSDT''), (''ETH'', ''ETHUSDT''), (''SOL'', ''SOLUSDT''),
          (''ADA'', ''ADAUSDT''), (''AVAX'', ''AVAXUSDT''), (''MATIC'', ''MATICUSDT''),
          (''DOT'', ''DOTUSDT''), (''LINK'', ''LINKUSDT''), (''UNI'', ''UNIUSDT''),
          (''ATOM'', ''ATOMUSDT''), (''NEAR'', ''NEARUSDT''), (''FTM'', ''FTMUSDT''),
          (''ALGO'', ''ALGOUSDT''), (''XRP'', ''XRPUSDT''), (''LTC'', ''LTCUSDT''),
          (''BCH'', ''BCHUSDT'')]\<rparr>,
      \<lparr>exchangeName = ''coinbase'', priority = 2,
       symbolMapping =
         [(''BTC'', ''BTC-USD''), (''ETH'', ''ETH-USD''), (''SOL'', ''SOL-USD''),
          (''ADA'', ''ADA-USD''), (''AVAX'', ''AVAX-USD''), (''MATIC'', ''MATIC-USD''),
          (''DOT'', ''DOT-USD''), (''LINK'', ''LINK-USD''), (''UNI'', ''UNI-USD''),
          (''ATOM'', ''ATOM-USD''), (''ALGO'', ''ALGO-USD''), (''LTC'', ''LTC-USD'')]\<rparr>,
      \<lparr>exchangeName = ''kraken'', priority = 3,
       symbolMapping =
         [(''BTC'', ''XBT/USD''), (''ETH'', ''ETH/USD''), (''SOL'', ''SOL/USD''),
          (''ADA'', ''ADA/USD''), (''AVAX'', ''AVAX/USD''), (''DOT'', ''DOT/USD''),
          (''LINK'', ''LINK/USD''), (''UNI'', ''UNI/USD''), (''ATOM'', ''ATOM/USD''),
          (''ALGO'', ''ALGO/USD''), (''LTC'', ''LTC/USD'')]\<rparr>]"

text \<open>
  \<^verbatim>\<open>subscribe(symbols)\<close> connects to every exchange in order of priority; the function it
  returns is \<open>disconnect\<close>. The flags say which of the sockets could be created.
\<close>

definition subscribe :: "(string \<Rightarrow> bool) \<Rightarrow> service \<Rightarrow> service" where
  "subscribe created s =
     foldl (\<lambda>s' e. connectToExchange (exchangeName e) (created (exchangeName e)) s') s
       (sort_key priority exchanges)"

text \<open>
  \<^verbatim>\<open>subscribe\<close> is an \<^verbatim>\<open>async\<close> function: a call runs at once up to its first
  \<^verbatim>\<open>await\<close>, which is past the call of \<^verbatim>\<open>connectToExchange\<close> for the first exchange by
  priority (\<^verbatim>\<open>connectToExchange\<close> has no \<^verbatim>\<open>await\<close> of its own); the connections to the
  other exchanges are made one by one when the code that called \<^verbatim>\<open>subscribe\<close> has
  returned. \<open>subscribe\<close> above is the call run to its end with nothing in between.
\<close>

definition subscribeStart :: "bool \<Rightarrow> service \<Rightarrow> service" where
  "subscribeStart created s =
     (case sort_key priority exchanges of
        [] \<Rightarrow> s
      | e # es \<Rightarrow> connectToExchange (exchangeName e) created s)"

definition subscribeResume :: "nat \<Rightarrow> bool \<Rightarrow> service \<Rightarrow> service" where
  "subscribeResume i created s =
     (if 0 < i \<and> i < length exchanges
      then connectToExchange (exchangeName (sort_key priority exchanges ! i)) created s
      else s)"

section \<open>The subscription registry\<close>

text \<open>
  \<^verbatim>\<open>onPriceUpdate(symbol, callback)\<close> creates an empty array for the symbol when the table
  has none, and appends the callback to the symbol's array. The function it returns is
  \<open>unsubscribe symbol callback\<close> below: it looks the symbol's array up in the table as the
  table is when it is called; \<^verbatim>\<open>indexOf\<close> finds the first occurrence (\<open>-1\<close> when there is
  none) and \<^verbatim>\<open>splice(index, 1)\<close> removes it.
\<close>

definition callbacksOf :: "service \<Rightarrow> string \<Rightarrow> nat list" where
  "callbacksOf s symb =
     (case map_of (priceCallbacks s) symb of None \<Rightarrow> [] | Some a \<Rightarrow> callbackArrays s ! a)"

definition push :: "nat \<Rightarrow> nat \<Rightarrow> service \<Rightarrow> service" where
  "push a callback s =
     s\<lparr>callbackArrays := (callbackArrays s)[a := callbackArrays s ! a @ [callback]]\<rparr>"

definition onPriceUpdate :: "string \<Rightarrow> nat \<Rightarrow> service \<Rightarrow> service" where
  "onPriceUpdate symb callback s =
     (let s1 = (if map_of (priceCallbacks s) symb = None
                then s\<lparr>callbackArrays := callbackArrays s @ [[]],
                       priceCallbacks :=
                         AList.update symb (length (callbackArrays s)) (priceCallbacks s)\<rparr>
                else s)
      in case map_of (priceCallbacks s1) symb of
           None \<Rightarrow> s1
         | Some a \<Rightarrow> push a callback s1)"

fun indexOfFrom :: "'a \<Rightarrow> 'a list \<Rightarrow> int \<Rightarrow> int" where
  "indexOfFrom x [] k = - 1"
| "indexOfFrom x (y # ys) k = (if y = x then k else indexOfFrom x ys (k + 1))"

definition indexOf :: "'a \<Rightarrow> 'a list \<Rightarrow> int" where
  "indexOf x xs = indexOfFrom x xs 0"

definition splice1 :: "int \<Rightarrow> 'a list \<Rightarrow> 'a list" where
  "splice1 i xs = take (nat i) xs @ drop (nat i + 1) xs"

definition unsubscribe :: "string \<Rightarrow> nat \<Rightarrow> service \<Rightarrow> service" where
  "unsubscribe symb callback s =
     (case map_of (priceCallbacks s) symb of
        None \<Rightarrow> s
      | Some a \<Rightarrow>
          (let callbacks = callbackArrays s ! a;
               index = indexOf callback callbacks
           in if index > - 1
              then s\<lparr>callbackArrays := (callbackArrays s)[a := splice1 index callbacks]\<rparr>
              else s))"

text \<open>
  \<^verbatim>\<open>onStatusUpdate(callback)\<close>: register, and send the current statuses at once. The
  function it returns is \<open>unsubscribeStatus callback\<close>. A status callback is recorded when
  it is invoked; it is taken to call nothing.
\<close>

definition onStatusUpdate :: "nat \<Rightarrow> service \<Rightarrow> service" where
  "onStatusUpdate callback s =
     s\<lparr>statusCallbacks := statusCallbacks s @ [callback],
       statusDelivered := statusDelivered s @ [(callback, map snd (connectionStatus s))]\<rparr>"

definition unsubscribeStatus :: "nat \<Rightarrow> service \<Rightarrow> service" where
  "unsubscribeStatus callback s =
     (let index = indexOf callback (statusCallbacks s)
      in if index > - 1
         then s\<lparr>statusCallbacks := splice1 index (statusCallbacks s)\<rparr>
         else s)"

text \<open>
  Invoking a price callback: the invocation is recorded, then the callback's own calls run.
  Callbacks are taken not to throw.
\<close>

fun runAction :: "service \<Rightarrow> action \<Rightarrow> service" where
  "runAction s (Unsubscribe symb callback) = unsubscribe symb callback s"
| "runAction s (UnsubscribeStatus callback) = unsubscribeStatus callback s"
| "runAction s (OnPriceUpdate symb callback) = onPriceUpdate symb callback s"
| "runAction s (OnStatusUpdate callback) = onStatusUpdate callback s"
| "runAction s Disconnect = disconnect s"
| "runAction s (SubscribeCalled created) = subscribeStart created s"

definition invoke :: "(nat \<Rightarrow> PriceUpdate \<Rightarrow> action list) \<Rightarrow> nat \<Rightarrow> PriceUpdate \<Rightarrow> service \<Rightarrow> service" where
  "invoke beh callback p s =
     foldl runAction (s\<lparr>priceDelivered := priceDelivered s @ [(callback, p)]\<rparr>) (beh callback p)"

text \<open>
  \<^verbatim>\<open>callbacks.forEach(callback => callback(bestPrice))\<close>, where \<^verbatim>\<open>callbacks\<close> is the array
  fetched from the table before the aggregation: the array at address \<open>a\<close>, or a new empty
  array when the table has none for the symbol (\<open>None\<close>). \<^verbatim>\<open>forEach\<close> reads the length
  once, then visits the indices \<open>0\<close> to \<open>length - 1\<close> in order, reading the element at each
  index from the array as it is at that moment and passing over an index the array no longer
  has.
\<close>

definition forEachStep :: "(nat \<Rightarrow> PriceUpdate \<Rightarrow> action list) \<Rightarrow> nat \<Rightarrow> PriceUpdate \<Rightarrow> service \<Rightarrow> nat \<Rightarrow> service" where
  "forEachStep beh a p s k =
     (if k < length (callbackArrays s ! a) then invoke beh (callbackArrays s ! a ! k) p s else s)"

definition forEachCallback :: "(nat \<Rightarrow> PriceUpdate \<Rightarrow> action list) \<Rightarrow> nat option \<Rightarrow> PriceUpdate \<Rightarrow> service \<Rightarrow> service" where
  "forEachCallback beh callbacks p s =
     (case callbacks of
        None \<Rightarrow> s
      | Some a \<Rightarrow> foldl (forEachStep beh a p) s [0..<length (callbackArrays s ! a)])"

text \<open>\<^verbatim>\<open>handlePriceUpdate(update)\<close>: cache the tick under \<open>symbol_source\<close>, aggregate, deliver.\<close>

definition handlePriceUpdate :: "(nat \<Rightarrow> PriceUpdate \<Rightarrow> action list) \<Rightarrow> PriceUpdate \<Rightarrow> service \<Rightarrow> service" where
  "handlePriceUpdate beh update s =
     (let s1 = s\<lparr>priceCache :=
                   AList.update (symbol update @ ''_'' @ source update) update (priceCache s)\<rparr>;
          callbacks = map_of (priceCallbacks s1) (symbol update);
          (bestPrice, s2) = aggregatePriceData (symbol update) s1
      in case bestPrice of
           None \<Rightarrow> s2
         | Some best \<Rightarrow> forEachCallback beh callbacks best s2)"

section \<open>Frames and the message decoders\<close>

text \<open>
  A frame is what \<^verbatim>\<open>JSON.parse\<close> returns; \<open>JUndefined\<close> is what reading a missing
  property gives. An object is the list of its own properties.
\<close>

datatype jsvalue =
    JUndefined
  | JNull
  | JBool bool
  | JNumber jsnum
  | JString string
  | JArray "jsvalue list"
  | JObject "(string \<times> jsvalue) list"

datatype js_error = TypeError

text \<open>
  Reading a named property throws a \<^verbatim>\<open>TypeError\<close> on \<^verbatim>\<open>null\<close> and \<^verbatim>\<open>undefined\<close>; on an
  object it gives the property, and on everything else \<^verbatim>\<open>undefined\<close> (none of the names
  the decoders read is a property of an array, a string, a number or a boolean).
\<close>

definition nullish :: "jsvalue \<Rightarrow> bool" where
  "nullish v = (v = JNull \<or> v = JUndefined)"

fun propertyOf :: "jsvalue \<Rightarrow> string \<Rightarrow> jsvalue" where
  "propertyOf (JObject kvs) name = (case map_of kvs name of None \<Rightarrow> JUndefined | Some v \<Rightarrow> v)"
| "propertyOf v name = JUndefined"

text \<open>Decimal digits of an index, for reading an index as a property of an object.\<close>

fun decimal :: "nat \<Rightarrow> string" where
  "decimal n = (if n < 10 then [char_of (48 + n)] else decimal (n div 10) @ [char_of (48 + n mod 10)])"

declare decimal.simps [simp del]

text \<open>\<^verbatim>\<open>v?.[i]\<close>: \<^verbatim>\<open>undefined\<close> when \<open>v\<close> is \<^verbatim>\<open>null\<close> or \<^verbatim>\<open>undefined\<close>, else the element.\<close>

fun optIndex :: "jsvalue \<Rightarrow> nat \<Rightarrow> jsvalue" where
  "optIndex (JArray xs) i = (if i < length xs then xs ! i else JUndefined)"
| "optIndex (JString cs) i = (if i < length cs then JString [cs ! i] else JUndefined)"
| "optIndex (JObject kvs) i = (case map_of kvs (decimal i) of None \<Rightarrow> JUndefined | Some v \<Rightarrow> v)"
| "optIndex v i = JUndefined"

fun truthy :: "jsvalue \<Rightarrow> bool" where
  "truthy JUndefined = False"
| "truthy JNull = False"
| "truthy (JBool b) = b"
| "truthy (JNumber n) = (n \<noteq> NaN \<and> n \<noteq> Num 0 \<and> n \<noteq> NegZero)"
| "truthy (JString cs) = (cs \<noteq> [])"
| "truthy v = True"

text \<open>
  The built-in conversions. \<^verbatim>\<open>parseFloat\<close> turns its argument into text first, so a
  negative zero gives the positive zero. What the conversions give on text (and on arrays and
  objects, which they turn into text first) is left open: \<open>textToFloat\<close> stands for
  \<^verbatim>\<open>parseFloat\<close> there, \<open>textToNumber\<close> for the conversion a subtraction applies to
  its operand, and \<open>dateTime\<close> for \<^verbatim>\<open>new Date(v).getTime()\<close>.
\<close>

record runtime =
  textToFloat :: "jsvalue \<Rightarrow> jsnum"
  textToNumber :: "jsvalue \<Rightarrow> jsnum"
  dateTime :: "jsvalue \<Rightarrow> jsnum"

fun parseFloat :: "runtime \<Rightarrow> jsvalue \<Rightarrow> jsnum" where
  "parseFloat rt JUndefined = NaN"
| "parseFloat rt JNull = NaN"
| "parseFloat rt (JBool b) = NaN"
| "parseFloat rt (JNumber n) = (if n = NegZero then Num 0 else n)"
| "parseFloat rt v = textToFloat rt v"

fun toNumber :: "runtime \<Rightarrow> jsvalue \<Rightarrow> jsnum" where
  "toNumber rt JUndefined = NaN"
| "toNumber rt JNull = Num 0"
| "toNumber rt (JBool b) = Num (if b then 1 else 0)"
| "toNumber rt (JNumber n) = n"
| "toNumber rt v = textToNumber rt v"

text \<open>\<^verbatim>\<open>x || 0\<close> on a number: \<open>0\<close> when \<open>x\<close> is NaN or a zero.\<close>

definition orZero :: "jsnum \<Rightarrow> jsnum" where
  "orZero x = (if x = NaN \<or> x = Num 0 \<or> x = NegZero then Num 0 else x)"

text \<open>
  \<^verbatim>\<open>findOriginalSymbol(exchangeName, exchangeSymbol)\<close>: the first canonical symbol whose
  mapped name is strictly equal to the frame's symbol, which is so only for a string.
\<close>

definition findOriginalSymbol :: "string \<Rightarrow> jsvalue \<Rightarrow> string option" where
  "findOriginalSymbol exch exchangeSymbol =
     (case find (\<lambda>e. exchangeName e = exch) exchanges of
        None \<Rightarrow> None
      | Some e \<Rightarrow>
          map_option fst (find (\<lambda>(original, mapped). JString mapped = exchangeSymbol)
                            (symbolMapping e)))"

text \<open>
  The three decoders. Each returns a tick, or null (\<open>None\<close>), or throws when it reads a
  property of \<^verbatim>\<open>null\<close>. A canonical symbol passes the test \<^verbatim>\<open>if (originalSymbol)\<close> when
  it is found and not the empty string. The tick's timestamp field holds the number the
  aggregator's subtraction sees.
\<close>

definition parseBinanceMessage :: "runtime \<Rightarrow> jsvalue \<Rightarrow> js_error + PriceUpdate option" where
  "parseBinanceMessage rt data =
     (if nullish data then Inl TypeError
      else if propertyOf data ''e'' = JString ''24hrTicker''
      then (case findOriginalSymbol ''binance'' (propertyOf data ''s'') of
              None \<Rightarrow> Inr None
            | Some originalSymbol \<Rightarrow>
                if originalSymbol \<noteq> []
                then Inr (Some \<lparr>symbol = originalSymbol,
                                 price = parseFloat rt (propertyOf data ''c''),
                                 timestamp = toNumber rt (propertyOf data ''E''),
                                 change24h = parseFloat rt (propertyOf data ''P''),
                                 volume24h = parseFloat rt (propertyOf data ''v''),
                                 source = ''binance'', latency = Num 0, confidence = 95\<rparr>)
                else Inr None)
      else Inr None)"

definition parseCoinbaseMessage :: "runtime \<Rightarrow> jsvalue \<Rightarrow> js_error + PriceUpdate option" where
  "parseCoinbaseMessage rt data =
     (if nullish data then Inl TypeError
      else if propertyOf data ''type'' = JString ''ticker''
      then (case findOriginalSymbol ''coinbase'' (propertyOf data ''product_id'') of
              None \<Rightarrow> Inr None
            | Some originalSymbol \<Rightarrow>
                if originalSymbol \<noteq> []
                then Inr (Some \<lparr>symbol = originalSymbol,
                                 price = parseFloat rt (propertyOf data ''price''),
                                 timestamp = dateTime rt (propertyOf data ''time''),
                                 change24h =
                                   (if truthy (JNumber (parseFloat rt (propertyOf data ''open_24h'')))
                                    then fl_mul
                                           (fl_div
                                              (fl_sub (parseFloat rt (propertyOf data ''price''))
                                                      (parseFloat rt (propertyOf data ''open_24h'')))
                                              (parseFloat rt (propertyOf data ''open_24h'')))
                                           (Num 100)
                                    else Num 0),
                                 volume24h = parseFloat rt (propertyOf data ''volume_24h''),
                                 source = ''coinbase'', latency = Num 0, confidence = 90\<rparr>)
                else Inr None)
      else Inr None)"

definition parseKrakenMessage :: "runtime \<Rightarrow> real \<Rightarrow> jsvalue \<Rightarrow> js_error + PriceUpdate option" where
  "parseKrakenMessage rt now data =
     (case data of
        JArray xs \<Rightarrow>
          if length xs > 3 \<and> xs ! 2 = JString ''ticker''
          then (case findOriginalSymbol ''kraken'' (xs ! 3) of
                  None \<Rightarrow> Inr None
                | Some originalSymbol \<Rightarrow>
                    if originalSymbol \<noteq> [] \<and> truthy (xs ! 1)
                    then Inr (Some \<lparr>symbol = originalSymbol,
                                     price = orZero (parseFloat rt (optIndex (propertyOf (xs ! 1) ''c'') 0)),
                                     timestamp = Num now,
                                     change24h = Num 0,
                                     volume24h = orZero (parseFloat rt (optIndex (propertyOf (xs ! 1) ''v'') 1)),
                                     source = ''kraken'', latency = Num 0, confidence = 80\<rparr>)
                    else Inr None)
          else Inr None
      | _ \<Rightarrow> Inr None)"

definition messageParser :: "string \<Rightarrow> runtime \<Rightarrow> real \<Rightarrow> jsvalue \<Rightarrow> js_error + PriceUpdate option" where
  "messageParser exch rt now data =
     (if exch = ''binance'' then parseBinanceMessage rt data
      else if exch = ''coinbase'' then parseCoinbaseMessage rt data
      else parseKrakenMessage rt now data)"

text \<open>
  \<^verbatim>\<open>ws.onmessage\<close> of socket \<open>w\<close>. The frame is \<open>None\<close> when \<^verbatim>\<open>JSON.parse\<close> throws; that
  exception and one thrown by the decoder are caught and the frame is dropped. \<open>elapsed\<close> is
  the difference of the two \<^verbatim>\<open>performance.now()\<close> readings.
\<close>

definition onmessage ::
    "runtime \<Rightarrow> (nat \<Rightarrow> PriceUpdate \<Rightarrow> action list) \<Rightarrow> nat \<Rightarrow> jsvalue option \<Rightarrow> real \<Rightarrow> service \<Rightarrow> service" where
  "onmessage rt beh w frame elapsed s =
     (let exch = wsExchange (sockets s ! w)
      in case frame of
           None \<Rightarrow> s
         | Some data \<Rightarrow>
             (case messageParser exch rt (clock s) data of
                Inl err \<Rightarrow> s
              | Inr None \<Rightarrow> s
              | Inr (Some priceUpdate) \<Rightarrow>
                  (let enhancedUpdate =
                         priceUpdate\<lparr>source := exch, latency := Num elapsed,
                                      confidence := calculateConfidence exch (Num elapsed)\<rparr>
                   in updateConnectionStatus exch CONNECTED (Num elapsed) None 0
                        (handlePriceUpdate beh enhancedUpdate s))))"

text \<open>
  What can happen to a service between two calls of its interface: an event of a socket it
  created, a pending timer firing, the clock advancing, or a caller invoking an unsubscribe
  function it holds. An event of a socket or timer that was never created, and the firing of
  a timer that is no longer pending, do not occur.
\<close>

datatype event =
    Opened nat
  | Message nat "jsvalue option" real
  | Errored nat
  | Closed nat int
  | TimerFired nat bool
  | ClockAdvanced real
  | UnsubscribeCalled string nat

fun step :: "runtime \<Rightarrow> (nat \<Rightarrow> PriceUpdate \<Rightarrow> action list) \<Rightarrow> service \<Rightarrow> event \<Rightarrow> service" where
  "step rt beh s (Opened w) = (if w < length (sockets s) then onopen w s else s)"
| "step rt beh s (Message w frame elapsed) =
     (if w < length (sockets s) then onmessage rt beh w frame elapsed s else s)"
| "step rt beh s (Errored w) = (if w < length (sockets s) then onerror w s else s)"
| "step rt beh s (Closed w code) = (if w < length (sockets s) then onclose w code s else s)"
| "step rt beh s (TimerFired t created) =
     (if t < length (timers s) \<and> pending (timers s ! t) then timerFires t created s else s)"
| "step rt beh s (ClockAdvanced d) = s\<lparr>clock := clock s + \<bar>d\<bar>\<rparr>"
| "step rt beh s (UnsubscribeCalled symb callback) = unsubscribe symb callback s"

definition run :: "runtime \<Rightarrow> (nat \<Rightarrow> PriceUpdate \<Rightarrow> action list) \<Rightarrow> service \<Rightarrow> event list \<Rightarrow> service" where
  "run rt beh s evs = foldl (step rt beh) s evs"

text \<open>
  The interface of the service as calls, to speak of the states a new service can reach:
  \<^verbatim>\<open>subscribe\<close> run to its end, the calls a callback can make as well (among them
  \<^verbatim>\<open>subscribe\<close> up to its first \<^verbatim>\<open>await\<close>), \<^verbatim>\<open>subscribe\<close> resuming after an
  \<^verbatim>\<open>await\<close>, and the events.
\<close>

datatype call =
    Subscribe "string \<Rightarrow> bool"
  | Call action
  | Resumed nat bool
  | Event event

fun perform :: "runtime \<Rightarrow> (nat \<Rightarrow> PriceUpdate \<Rightarrow> action list) \<Rightarrow> service \<Rightarrow> call \<Rightarrow> service" where
  "perform rt beh s (Subscribe created) = subscribe created s"
| "perform rt beh s (Call a) = runAction s a"
| "perform rt beh s (Resumed i created) = subscribeResume i created s"
| "perform rt beh s (Event ev) = step rt beh s ev"

section \<open>Initial state and example caches\<close>

text \<open>A service as the constructor leaves it: every table empty.\<close>

definition newService :: service where
  "newService = \<lparr>connections = [], connectionStatus = [], priceCallbacks = [],
     statusCallbacks = [], reconnectTimers = [], priceCache = [], callbackArrays = [],
     clock = 0, sockets = [], timers = [], closeCalls = [], clearedTimers = [],
     priceDelivered = [], statusDelivered = []\<rparr>"

text \<open>Example ticks and caches, used to evaluate the model at concrete inputs.\<close>

definition tick :: "string \<Rightarrow> string \<Rightarrow> real \<Rightarrow> int \<Rightarrow> real \<Rightarrow> PriceUpdate" where
  "tick sy src p c ts = \<lparr>symbol = sy, price = Num p, timestamp = Num ts, change24h = Num 0,
     volume24h = Num 0, source = src, latency = Num 0, confidence = c\<rparr>"

definition serviceWithCache :: "real \<Rightarrow> (string \<times> PriceUpdate) list \<Rightarrow> service" where
  "serviceWithCache now cache = newService\<lparr>clock := now, priceCache := cache\<rparr>"

definition allCreated :: "string \<Rightarrow> bool" where
  "allCreated exch = True"

definition idleRuntime :: runtime where
  "idleRuntime = \<lparr>textToFloat = (\<lambda>v. NaN), textToNumber = (\<lambda>v. NaN), dateTime = (\<lambda>v. NaN)\<rparr>"

definition silent :: "nat \<Rightarrow> PriceUpdate \<Rightarrow> action list" where
  "silent cb p = []"

definition btcTick :: PriceUpdate where
  "btcTick = tick ''BTC'' ''binance'' 50000 100 0"





definition cacheStale :: "(string \<times> PriceUpdate) list" where
  "cacheStale = [(''BTC_binance'', tick ''BTC'' ''binance'' 50000 100 0),
                 (''ETH_binance'', tick ''ETH'' ''binance'' 3000 100 39000)]"

definition cacheWithStats :: "(string \<times> PriceUpdate) list" where
  "cacheWithStats =
     [(''BTC_binance'',
        \<lparr>symbol = ''BTC'', price = Num 50000, timestamp = Num 900, change24h = Num 2,
         volume24h = Num 1000, source = ''binance'', latency = Num 3, confidence = 100\<rparr>),
      (''BTC_kraken'',
        \<lparr>symbol = ''BTC'', price = Num 60000, timestamp = Num 950, change24h = Num 0,
         volume24h = Num 400, source = ''kraken'', latency = Num 7, confidence = 85\<rparr>)]"

section \<open>Notions used in the properties of the registry\<close>

text \<open>
  A registry in which every symbol of the table has an array of its own among the arrays
  created so far.
\<close>

definition registryWellFormed :: "service \<Rightarrow> bool" where
  "registryWellFormed s =
     (list_all (\<lambda>a. a < length (callbackArrays s)) (map snd (priceCallbacks s))
      \<and> distinct (map snd (priceCallbacks s)))"

text \<open>An array that exists and does not hold a given callback.\<close>

definition absentFrom :: "nat \<Rightarrow> nat \<Rightarrow> service \<Rightarrow> bool" where
  "absentFrom cb a s = (a < length (callbackArrays s) \<and> cb \<notin> set (callbackArrays s ! a))"

text \<open>
  One callback list is obtained from another by removals: from every index on it holds only
  elements the other holds from that index on, and it has no duplicates if the other has none.
\<close>

definition narrower :: "'a list \<Rightarrow> 'a list \<Rightarrow> bool" where
  "narrower ys xs = ((\<forall>n. set (drop n ys) \<subseteq> set (drop n xs)) \<and> (distinct xs \<longrightarrow> distinct ys))"

text \<open>
  A delivery during which the callbacks of the list call nothing but unsubscribe functions;
  and one during which, moreover, no callback of the list unsubscribes from the list itself
  or a callback that stands before it.
\<close>

fun isUnsubscribe :: "action \<Rightarrow> bool" where
  "isUnsubscribe (Unsubscribe symb callback) = True"
| "isUnsubscribe a = False"

definition onlyUnsubscribes :: "(nat \<Rightarrow> PriceUpdate \<Rightarrow> action list) \<Rightarrow> PriceUpdate \<Rightarrow> nat list \<Rightarrow> bool" where
  "onlyUnsubscribes beh p cbs = list_all (\<lambda>c. list_all isUnsubscribe (beh c p)) cbs"

definition removesLaterOnly ::
    "(nat \<Rightarrow> PriceUpdate \<Rightarrow> action list) \<Rightarrow> PriceUpdate \<Rightarrow> string \<Rightarrow> nat list \<Rightarrow> bool" where
  "removesLaterOnly beh p symb cbs =
     list_all (\<lambda>i. list_all (\<lambda>c. Unsubscribe symb c \<notin> set (beh (cbs ! i) p)) (take (Suc i) cbs))
       [0..<length cbs]"

text \<open>Example callbacks: what each does when invoked.\<close>

definition selfRemoving :: "nat \<Rightarrow> PriceUpdate \<Rightarrow> action list" where
  "selfRemoving cb p = (if cb = 11 then [Unsubscribe ''BTC'' 11] else [])"

definition removingLater :: "nat \<Rightarrow> PriceUpdate \<Rightarrow> action list" where
  "removingLater cb p = (if cb = 11 then [Unsubscribe ''BTC'' 13, Unsubscribe ''ETH'' 11] else [])"

definition reRegistering :: "nat \<Rightarrow> PriceUpdate \<Rightarrow> action list" where
  "reRegistering cb p = (if cb = 11 then [Unsubscribe ''BTC'' 11, OnPriceUpdate ''BTC'' 11] else [])"

definition shuttingDown :: "nat \<Rightarrow> PriceUpdate \<Rightarrow> action list" where
  "shuttingDown cb p = (if cb = 11 then [Disconnect] else [])"

section \<open>Example frames\<close>

text \<open>
  Ticker frames of mapped symbols: three without a price field and one with the price
  \<open>-5\<close>. The fields that are converted hold numbers, never text.
\<close>

definition krakenFrameNoPrice :: jsvalue where
  "krakenFrameNoPrice =
     JArray [JNumber (Num 340), JObject [(''v'', JArray [JNumber (Num 12), JNumber (Num 340)])],
             JString ''ticker'', JString ''XBT/USD'']"

definition binanceFrameNoPrice :: jsvalue where
  "binanceFrameNoPrice =
     JObject [(''e'', JString ''24hrTicker''), (''E'', JNumber (Num 1000)), (''s'', JString ''BTCUSDT'')]"

definition binanceFrameNegative :: jsvalue where
  "binanceFrameNegative =
     JObject [(''e'', JString ''24hrTicker''), (''E'', JNumber (Num 1000)), (''s'', JString ''BTCUSDT''),
              (''c'', JNumber (Num (- 5)))]"

definition coinbaseFrameNoPrice :: jsvalue where
  "coinbaseFrameNoPrice =
     JObject [(''type'', JString ''ticker''), (''product_id'', JString ''ETH-USD'')]"

section \<open>Reachable states\<close>

text \<open>
  The names of the adapters, and the states in which every socket and every timer belongs
  to one of them, the table of connections holds each socket once and only sockets that
  were created, the registry is well formed and the cache is keyed by symbol and source.
\<close>

definition exchangeNames :: "string list" where
  "exchangeNames = map exchangeName exchanges"

definition wellFormed :: "service \<Rightarrow> bool" where
  "wellFormed s =
     (distinct (map snd (connections s))
      \<and> list_all (\<lambda>w. w < length (sockets s)) (map snd (connections s))
      \<and> list_all (\<lambda>w. wsExchange w \<in> set exchangeNames) (sockets s)
      \<and> list_all (\<lambda>t. timerExchange t \<in> set exchangeNames) (timers s)
      \<and> registryWellFormed s
      \<and> cacheKeyed (priceCache s))"

section \<open>Properties of the rounding\<close>

lemma binadeUpTo_lower: "- 1022 \<le> binadeUpTo n x"
  by (induction n) simp_all

lemma binadeUpTo_below: "binadeUpTo n x = - 1022 \<or> 2 powi (binadeUpTo n x) \<le> \<bar>x\<bar>"
  by (induction n) auto

lemma binadeUpTo_greatest:
  "k \<le> n \<Longrightarrow> 2 powi (int k - 1022) \<le> \<bar>x\<bar> \<Longrightarrow> int k - 1022 \<le> binadeUpTo n x"
proof (induction n)
  case 0
  then show ?case by simp
next
  case (Suc n)
  show ?case
  proof (cases "k = Suc n")
    case True
    with Suc.prems show ?thesis by simp
  next
    case False
    with Suc.prems have kn: "k \<le> n" by simp
    from Suc.IH[OF kn Suc.prems(2)] kn show ?thesis by auto
  qed
qed

text \<open>The binade of a number, from bounds by two consecutive powers of two.\<close>

lemma binade_eq:
  assumes "- 1022 \<le> e" and "e \<le> 1023" and "2 powi e \<le> \<bar>x\<bar>" and "\<bar>x\<bar> < 2 powi (e + 1)"
  shows "binade x = e"
proof -
  define k where "k = nat (e + 1022)"
  have k: "int k - 1022 = e" and kn: "k \<le> 2045" using assms(1,2) by (simp_all add: k_def)
  have ge: "e \<le> binade x"
    using binadeUpTo_greatest[of k 2045 x] k kn assms(3) by (simp add: binade_def)
  have "\<not> e < binade x"
  proof
    assume lt: "e < binade x"
    then have "binade x \<noteq> - 1022" using assms(1) by simp
    with binadeUpTo_below[of 2045 x] have "2 powi (binade x) \<le> \<bar>x\<bar>" by (simp add: binade_def)
    moreover have "(2::real) powi (e + 1) \<le> 2 powi (binade x)"
      using lt by (intro power_int_increasing) simp_all
    ultimately show False using assms(4) by simp
  qed
  with ge show ?thesis by simp
qed

lemma roundHalfEven_lower: "of_int k \<le> q \<Longrightarrow> k \<le> roundHalfEven q"
proof -
  assume "of_int k \<le> q"
  then have "k \<le> \<lfloor>q\<rfloor>" by (simp add: le_floor_iff)
  then show ?thesis by (simp add: roundHalfEven_def Let_def)
qed

text \<open>Rounding does not take a number that is at least 30000 below 30000.\<close>

lemma round64_at_least_30000:
  assumes "30000 \<le> x"
  shows "\<not> js_lt (round64 x) (Num 30000)"
proof -
  define e where "e = binade x"
  define u :: real where "u = 2 powi (e - 52)"
  have upos: "0 < u" by (simp add: u_def zero_less_power_int)
  have xabs: "\<bar>x\<bar> = x" using assms by simp
  have "(2::real) powi (int 1036 - 1022) \<le> \<bar>x\<bar>" using assms by simp
  from binadeUpTo_greatest[OF _ this, of 2045] have e14: "14 \<le> e"
    by (simp add: e_def binade_def)
  then have "binadeUpTo 2045 x \<noteq> - 1022" by (simp add: e_def binade_def)
  with binadeUpTo_below[of 2045 x] have ex: "2 powi e \<le> x"
    by (simp add: e_def binade_def xabs)
  have "\<exists>k :: int. of_int k \<le> x / u \<and> 30000 \<le> of_int k * u"
  proof (cases "e \<le> 56")
    case True
    define k :: int where "k = 1875 * 2 ^ nat (56 - e)"
    have "of_int k = 1875 * (2::real) powi (56 - e)"
      using True by (simp add: k_def power_int_def)
    then have "of_int k * u = 1875 * ((2::real) powi (56 - e) * 2 powi (e - 52))"
      by (simp add: u_def)
    also have "(2::real) powi (56 - e) * 2 powi (e - 52) = 2 powi ((56 - e) + (e - 52))"
      by (rule power_int_add[symmetric]) simp
    also have "(56 - e) + (e - 52) = 4" by simp
    finally have ku: "of_int k * u = 30000" by simp
    then have "of_int k \<le> x / u" using assms upos by (simp add: pos_le_divide_eq)
    with ku show ?thesis by (intro exI[of _ k]) simp
  next
    case False
    define k :: int where "k = 2 ^ 52"
    have "of_int k * u = (2::real) powi 52 * 2 powi (e - 52)" by (simp add: k_def u_def)
    also have "\<dots> = 2 powi (52 + (e - 52))" by (rule power_int_add[symmetric]) simp
    also have "52 + (e - 52) = e" by simp
    finally have ku: "of_int k * u = 2 powi e" by simp
    have "(2::real) powi 15 \<le> 2 powi e" using False by (intro power_int_increasing) simp_all
    then have big: "30000 \<le> (2::real) powi e" by simp
    have "of_int k \<le> x / u" using ex ku upos by (simp add: pos_le_divide_eq)
    with ku big show ?thesis by (intro exI[of _ k]) simp
  qed
  then obtain k :: int where k1: "of_int k \<le> x / u" and k2: "30000 \<le> of_int k * u" by blast
  from k1 have "k \<le> roundHalfEven (x / u)" by (rule roundHalfEven_lower)
  then have "(of_int k :: real) \<le> of_int (roundHalfEven (x / u))" by simp
  then have "of_int k * u \<le> of_int (roundHalfEven (x / u)) * u"
    using upos by (simp add: mult_right_mono)
  with k2 have r: "30000 \<le> of_int (roundHalfEven (x / u)) * u" by simp
  show ?thesis
    using r assms unfolding round64_def e_def[symmetric] Let_def u_def[symmetric]
    by (simp split: if_splits)
qed

text \<open>
  Evaluating the rounding: once the binade of a number is known; and on the integers below
  \<open>2 ^ 53\<close> in magnitude, which are binary64 values.
\<close>

lemma round64_eval:
  assumes "- 1022 \<le> e" and "e \<le> 1023" and "2 powi e \<le> \<bar>x\<bar>" and "\<bar>x\<bar> < 2 powi (e + 1)"
  shows "round64 x =
           (let ulp = 2 powi (e - 52);
                r = of_int (roundHalfEven (x / ulp)) * ulp
            in if 2 powi 1024 \<le> \<bar>r\<bar> then (if 0 < x then PInf else NInf)
               else if r = 0 \<and> x < 0 then NegZero
               else Num r)"
  using binade_eq[OF assms] by (simp add: round64_def)

lemma roundHalfEven_of_int: "roundHalfEven (of_int m) = m"
  by (simp add: roundHalfEven_def)

lemma binade_small: "\<bar>x\<bar> < 2 powi (- 1022) \<Longrightarrow> binade x = - 1022"
proof -
  assume a: "\<bar>x\<bar> < 2 powi (- 1022)"
  have "\<not> - 1022 < binade x"
  proof
    assume lt: "- 1022 < binade x"
    with binadeUpTo_below[of 2045 x] have "2 powi (binade x) \<le> \<bar>x\<bar>" by (simp add: binade_def)
    moreover have "(2::real) powi (- 1022) \<le> 2 powi (binade x)"
      using lt by (intro power_int_increasing) simp_all
    ultimately show False using a by simp
  qed
  with binadeUpTo_lower[of 2045 x] show ?thesis by (simp add: binade_def)
qed

lemma round64_zero [simp]: "round64 0 = Num 0"
proof -
  have "binade 0 = - 1022" by (rule binade_small) (simp add: zero_less_power_int)
  then show ?thesis by (simp add: round64_def roundHalfEven_def)
qed

lemma round64_of_int:
  assumes "\<bar>n\<bar> < 2 ^ 53"
  shows "round64 (of_int n) = Num (of_int n)"
proof (cases "n = 0")
  case True
  then show ?thesis by (simp add: round64_zero)
next
  case False
  define x :: real where "x = of_int n"
  define e where "e = binade x"
  have "1 \<le> \<bar>n\<bar>" using False by simp
  then have "(1::real) \<le> of_int \<bar>n\<bar>" by (simp only: of_int_1_le_iff)
  then have x1: "1 \<le> \<bar>x\<bar>" by (simp add: x_def)
  have xlt: "\<bar>x\<bar> < 2 powi 53"
  proof -
    have "\<bar>x\<bar> = of_int \<bar>n\<bar>" by (simp add: x_def)
    also have "\<dots> < of_int (2 ^ 53)" using assms by (simp only: of_int_less_iff)
    finally show ?thesis by simp
  qed
  have "(2::real) powi (int 1022 - 1022) \<le> \<bar>x\<bar>" using x1 by simp
  from binadeUpTo_greatest[OF _ this, of 2045] have e0: "0 \<le> e" by (simp add: e_def binade_def)
  then have "binadeUpTo 2045 x \<noteq> - 1022" by (simp add: e_def binade_def)
  with binadeUpTo_below[of 2045 x] have ex: "2 powi e \<le> \<bar>x\<bar>" by (simp add: e_def binade_def)
  have e52: "e \<le> 52"
  proof (rule ccontr)
    assume "\<not> e \<le> 52"
    then have "(2::real) powi 53 \<le> 2 powi e" by (intro power_int_increasing) simp_all
    with ex xlt show False by simp
  qed
  define m :: int where "m = n * 2 ^ nat (52 - e)"
  have ulp: "(2::real) powi (e - 52) = 1 / 2 ^ nat (52 - e)"
  proof -
    have "(2::real) powi (e - 52) = 2 powi (- (52 - e))" by simp
    also have "\<dots> = 1 / 2 powi (52 - e)" by (rule power_int_minus_divide)
    also have "\<dots> = 1 / 2 ^ nat (52 - e)" using e52 by (simp add: power_int_def)
    finally show ?thesis .
  qed
  have q: "x / 2 powi (e - 52) = of_int m" by (simp add: ulp m_def x_def)
  have r: "of_int m * (2::real) powi (e - 52) = x" by (simp add: ulp m_def x_def)
  have small: "\<not> 2 powi 1024 \<le> \<bar>x\<bar>"
  proof -
    have "(2::real) powi 53 \<le> 2 powi 1024" by (intro power_int_increasing) simp_all
    with xlt show ?thesis by simp
  qed
  have nz: "x \<noteq> 0" using x1 by auto
  show ?thesis
    unfolding x_def[symmetric] round64_def e_def[symmetric] Let_def q roundHalfEven_of_int r
    using small nz by simp
qed

lemma round64_numeral [simp]:
  "numeral k < (2::int) ^ 53 \<Longrightarrow> round64 (numeral k) = Num (numeral k)"
  using round64_of_int[of "numeral k"] by simp

lemma round64_neg_numeral [simp]:
  "numeral k < (2::int) ^ 53 \<Longrightarrow> round64 (- numeral k) = Num (- numeral k)"
  using round64_of_int[of "- numeral k"] by simp

lemma round64_one [simp]: "round64 1 = Num 1"
  using round64_of_int[of 1] by simp

lemma round64_neg_one [simp]: "round64 (- 1) = Num (- 1)"
  using round64_of_int[of "- 1"] by simp


lemma js_lt_NaN [simp]: "js_lt x NaN = False"
  by (cases x) simp_all

lemma js_sub_Num: "js_sub (Num a) (Num b) = Num (a - b)"
  by (simp add: js_sub_def)

section \<open>Properties of the confidence score\<close>

lemma trust_rank_base_range: "70 \<le> trust_rank_base e \<and> trust_rank_base e \<le> 95"
  by (simp add: trust_rank_base_def)

lemma latency_adjustment_range: "- 10 \<le> latency_adjustment l \<and> latency_adjustment l \<le> 5"
  by (cases l) (simp_all add: latency_adjustment_def)

lemma calculateConfidence_unclamped:
  "calculateConfidence e l = max 10 (min 100 (trust_rank_base e + latency_adjustment l))"
  by (cases l)
     (simp_all add: calculateConfidence_def trust_rank_base_def latency_adjustment_def
        js_gt_def Let_def)

text \<open>
  Claim C9. For every exchange name and every latency, \<open>calculateConfidence\<close> is the
  trust-rank base score (binance 95, coinbase 90, kraken 80, any other name 70) plus the
  latency adjustment (\<open>+5\<close> below 100 ms, \<open>-5\<close> in the band from 500 to 1000 ms, \<open>-10\<close> above
  1000 ms, nothing otherwise), clamped to the interval from 10 to 100. The score is a function of
  its two arguments alone: equal arguments give equal scores.
\<close>

theorem C9_calculateConfidence_table:
  "calculateConfidence e l = max 10 (min 100 (trust_rank_base e + latency_adjustment l))
   \<and> 10 \<le> calculateConfidence e l \<and> calculateConfidence e l \<le> 100
   \<and> calculateConfidence e l = trust_rank_base e + latency_adjustment l"
proof -
  have b: "70 \<le> trust_rank_base e \<and> trust_rank_base e \<le> 95"
    by (rule trust_rank_base_range)
  have a: "- 10 \<le> latency_adjustment l \<and> latency_adjustment l \<le> 5"
    by (rule latency_adjustment_range)
  have u: "calculateConfidence e l = max 10 (min 100 (trust_rank_base e + latency_adjustment l))"
    by (rule calculateConfidence_unclamped)
  from a b u show ?thesis by simp
qed

section \<open>Properties of the aggregator\<close>

lemma highestConfidence_sort:
  "highestConfidence xs = (case sort_key (\<lambda>u. - confidence u) xs of [] \<Rightarrow> None | p # _ \<Rightarrow> Some p)"
proof (induction xs)
  case Nil
  show ?case by simp
next
  case (Cons x xs)
  show ?case
  proof (cases "sort_key (\<lambda>u. - confidence u) xs")
    case Nil
    with Cons show ?thesis by simp
  next
    case (Cons y ys)
    with Cons.IH show ?thesis by auto
  qed
qed

lemma aggregatePriceData_char:
  "aggregatePriceData symb s =
     (let fresh = collectSources symb (clock s) (priceCache s) in
      case highestConfidence fresh of
        None \<Rightarrow> (None, s)
      | Some p \<Rightarrow>
          if 1 < length fresh \<and> exceedsThreshold (price p) (roundedMean fresh)
          then (Some (aggregatedFrom p (roundedMean fresh)), s) else (Some p, s))"
proof -
  define fresh where "fresh = collectSources symb (clock s) (priceCache s)"
  define sorted where "sorted = sort_key (\<lambda>u. - confidence u) fresh"
  have len: "length sorted = length fresh" by (simp add: sorted_def)
  have hc: "highestConfidence fresh = (case sorted of [] \<Rightarrow> None | p # _ \<Rightarrow> Some p)"
    unfolding sorted_def by (rule highestConfidence_sort)
  show ?thesis
  proof (cases sorted)
    case Nil
    with hc show ?thesis
      by (simp add: aggregatePriceData_def fresh_def[symmetric] sorted_def[symmetric])
  next
    case (Cons p rest)
    note c1 = Cons
    show ?thesis
    proof (cases rest)
      case Nil
      with c1 hc len show ?thesis
        by (simp add: aggregatePriceData_def fresh_def[symmetric] sorted_def[symmetric])
    next
      case (Cons q rest')
      have avg: "fl_div (foldl fl_add (price p) (map price rest)) (Num (real (length (p # rest))))
                 = roundedMean fresh"
        using len c1 by (simp add: roundedMean_def byConfidence_def sorted_def[symmetric])
      have "1 < length fresh" using len c1 Cons by simp
      with c1 Cons hc avg show ?thesis
        by (simp add: aggregatePriceData_def fresh_def[symmetric] sorted_def[symmetric]
              Let_def exceedsThreshold_def aggregatedFrom_def del: foldl_Cons)
    qed
  qed
qed





lemma exact_age:
  "js_sub (Num now) (Num t) = Num (now - t)"
  by (simp add: js_sub_def)

lemma isFresh_ageBelow30s: "isFresh now u \<Longrightarrow> ageBelow30s now u"
proof (cases "timestamp u")
  case (Num t)
  assume "isFresh now u"
  with Num have "js_lt (round64 (now - t)) (Num 30000)"
    by (simp add: isFresh_def fl_sub_def exact_age)
  with round64_at_least_30000[of "now - t"] have "now - t < 30000" by fastforce
  with Num show ?thesis by (simp add: ageBelow30s_def exact_age)
next
  case NegZero
  assume "isFresh now u"
  with NegZero have "js_lt (round64 now) (Num 30000)"
    by (simp add: isFresh_def fl_sub_def js_sub_def)
  with round64_at_least_30000[of now] have "now < 30000" by fastforce
  with NegZero show ?thesis by (simp add: ageBelow30s_def js_sub_def)
qed (simp_all add: isFresh_def ageBelow30s_def fl_sub_def js_sub_def)

lemma fresh_not_old: "isFresh now u \<Longrightarrow> \<not> ageAtLeast30s now u"
proof -
  assume "isFresh now u"
  then have "ageBelow30s now u" by (rule isFresh_ageBelow30s)
  then show ?thesis
    unfolding ageBelow30s_def ageAtLeast30s_def
    by (cases "js_sub (Num now) (timestamp u)") simp_all
qed

lemma collectSources_drop_old:
  "collectSources symb now (filter (\<lambda>(k, u). \<not> ageAtLeast30s now u) cache)
   = collectSources symb now cache"
proof -
  have "filter (\<lambda>(key, update). startsWith key (symb @ ''_'') \<and> isFresh now update)
          (filter (\<lambda>(k, u). \<not> ageAtLeast30s now u) cache)
        = filter (\<lambda>(key, update). startsWith key (symb @ ''_'') \<and> isFresh now update) cache"
    unfolding filter_filter
    by (rule filter_cong) (auto dest: fresh_not_old)
  then show ?thesis by (simp add: collectSources_def)
qed

lemma collectSources_empty:
  assumes "\<forall>(k, u) \<in> set cache. startsWith k (symb @ ''_'') \<longrightarrow> \<not> ageBelow30s now u"
  shows "collectSources symb now cache = []"
  using assms by (auto simp: collectSources_def filter_empty_conv dest: isFresh_ageBelow30s)

lemmas scenario_defs = serviceWithCache_def newService_def tick_def collectSources_def
  startsWith_def isFresh_def js_sub_def js_gt_def fl_sub_def fl_add_def fl_div_def js_div_def
  aggregatedFrom_def

text \<open>
  Claim C5. For every symbol and every state: removing the cached ticks whose age is 30 seconds
  or more does not change the result of \<open>aggregatePriceData\<close>; the result is null when no
  cached tick of the symbol is fresher than 30 seconds; and the call returns the state it was
  given, so a second call at the same instant returns the same result.
\<close>

theorem C5_read_time_expiry:
  "fst (aggregatePriceData symb
          (s\<lparr>priceCache := filter (\<lambda>(k, u). \<not> ageAtLeast30s (clock s) u) (priceCache s)\<rparr>))
     = fst (aggregatePriceData symb s)
   \<and> ((\<forall>(k, u) \<in> set (priceCache s). startsWith k (symb @ ''_'') \<longrightarrow> \<not> ageBelow30s (clock s) u)
        \<longrightarrow> fst (aggregatePriceData symb s) = None)
   \<and> snd (aggregatePriceData symb s) = s
   \<and> aggregatePriceData symb (snd (aggregatePriceData symb s)) = aggregatePriceData symb s"
proof -
  have unchanged: "snd (aggregatePriceData symb t) = t" for t
    by (simp add: aggregatePriceData_char Let_def split: option.splits)
  have expiry: "fst (aggregatePriceData symb
          (s\<lparr>priceCache := filter (\<lambda>(k, u). \<not> ageAtLeast30s (clock s) u) (priceCache s)\<rparr>))
     = fst (aggregatePriceData symb s)"
    by (simp add: aggregatePriceData_char collectSources_drop_old Let_def split: option.splits)
  have none: "fst (aggregatePriceData symb s) = None"
    if "\<forall>(k, u) \<in> set (priceCache s). startsWith k (symb @ ''_'') \<longrightarrow> \<not> ageBelow30s (clock s) u"
    using collectSources_empty[OF that] by (simp add: aggregatePriceData_char)
  from unchanged expiry none show ?thesis by simp
qed

text \<open>
  At time 40000 a tick stamped 0 is 40 seconds old: the symbol has no usable data, with the
  tick in the cache as without it, while a tick stamped 39000 is returned and the state is
  left as it was.
\<close>

theorem C5_read_time_expiry_witness:
  "(let s = serviceWithCache 40000 cacheStale
    in ageAtLeast30s (clock s) (tick ''BTC'' ''binance'' 50000 100 0)
       \<and> fst (aggregatePriceData ''BTC'' s) = None
       \<and> fst (aggregatePriceData ''BTC'' (s\<lparr>priceCache := [(''ETH_binance'', tick ''ETH'' ''binance'' 3000 100 39000)]\<rparr>)) = None
       \<and> fst (aggregatePriceData ''ETH'' s) = Some (tick ''ETH'' ''binance'' 3000 100 39000)
       \<and> snd (aggregatePriceData ''ETH'' s) = s)"
proof -
  define s where "s = serviceWithCache 40000 cacheStale"
  have old: "ageAtLeast30s (clock s) (tick ''BTC'' ''binance'' 50000 100 0)"
    by (simp add: s_def ageAtLeast30s_def scenario_defs)
  have flt: "filter (\<lambda>(k, u). \<not> ageAtLeast30s (clock s) u) (priceCache s)
             = [(''ETH_binance'', tick ''ETH'' ''binance'' 3000 100 39000)]"
    by (simp add: s_def ageAtLeast30s_def cacheStale_def scenario_defs)
  have hyp: "\<forall>(k, u) \<in> set (priceCache s). startsWith k (''BTC'' @ ''_'') \<longrightarrow> \<not> ageBelow30s (clock s) u"
    by (simp add: s_def ageBelow30s_def cacheStale_def scenario_defs)
  have eth: "fst (aggregatePriceData ''ETH'' s) = Some (tick ''ETH'' ''binance'' 3000 100 39000)"
    by (simp add: s_def aggregatePriceData_def cacheStale_def scenario_defs)
  from C5_read_time_expiry[of "''BTC''" s] C5_read_time_expiry[of "''ETH''" s] old flt hyp eth
  show ?thesis by (simp add: s_def[symmetric])
qed

text \<open>
  Claim C10. In the divergence branch (at least two fresh ticks and the test of the source
  true) the synthesized tick has the symbol, timestamp, 24h change, 24h volume and latency of
  the highest-confidence tick: it is that tick with the price, source and confidence replaced.
\<close>

theorem C10_aggregated_keeps_primary_fields:
  assumes "fresh = collectSources symb (clock s) (priceCache s)"
    and "2 \<le> length fresh"
    and "highestConfidence fresh = Some primary"
    and "exceedsThreshold (price primary) (roundedMean fresh)"
  shows "\<exists>r. fst (aggregatePriceData symb s) = Some r
              \<and> source r = ''aggregated''
              \<and> symbol r = symbol primary
              \<and> timestamp r = timestamp primary
              \<and> change24h r = change24h primary
              \<and> volume24h r = volume24h primary
              \<and> latency r = latency primary
              \<and> r = primary\<lparr>price := price r, source := source r, confidence := confidence r\<rparr>"
proof -
  from assms have "fst (aggregatePriceData symb s) = Some (aggregatedFrom primary (roundedMean fresh))"
    by (simp add: aggregatePriceData_char)
  then show ?thesis by (simp add: aggregatedFrom_def)
qed

lemma relative_deviation_one_eleventh:
  "js_gt (fl_div (Num 5000) (Num 55000)) (round64 (5 / 1000))"
  by (simp add: fl_div_def js_div_def js_gt_def round64_eval[of "- 4" "1 / 11"]
        round64_eval[of "- 8" "1 / 200"] roundHalfEven_def)

text \<open>
  Two sources with different timestamps and statistics: the aggregated tick carries those of
  the primary (900, 2, 1000, 3), not means.
\<close>

theorem C10_aggregated_keeps_primary_fields_witness:
  "(let s = serviceWithCache 1000 cacheWithStats;
        fresh = collectSources ''BTC'' (clock s) (priceCache s)
    in 2 \<le> length fresh
       \<and> roundedMean fresh = Num 55000
       \<and> exceedsThreshold (Num 50000) (roundedMean fresh)
       \<and> (\<exists>r. fst (aggregatePriceData ''BTC'' s) = Some r
              \<and> source r = ''aggregated''
              \<and> symbol r = ''BTC'' \<and> timestamp r = Num 900 \<and> change24h r = Num 2
              \<and> volume24h r = Num 1000 \<and> latency r = Num 3))"
proof -
  define s where "s = serviceWithCache 1000 cacheWithStats"
  define fresh where "fresh = collectSources ''BTC'' (clock s) (priceCache s)"
  define p where "p = snd (hd cacheWithStats)"
  have fr: "fresh = map snd cacheWithStats"
    by (simp add: fresh_def s_def cacheWithStats_def scenario_defs)
  have h2: "2 \<le> length fresh" by (simp add: fr cacheWithStats_def)
  have h3: "highestConfidence fresh = Some p"
    by (simp add: fr p_def cacheWithStats_def)
  have m: "roundedMean fresh = Num 55000"
    by (simp add: fr cacheWithStats_def roundedMean_def byConfidence_def scenario_defs)
  have pp: "price p = Num 50000" by (simp add: p_def cacheWithStats_def)
  have h4: "exceedsThreshold (price p) (roundedMean fresh)"
    using relative_deviation_one_eleventh
    by (simp add: m pp exceedsThreshold_def fl_sub_def js_sub_def)
  from C10_aggregated_keeps_primary_fields[OF fresh_def h2 h3 h4] h2 h4 m
  show ?thesis
    by (simp add: s_def[symmetric] fresh_def[symmetric] pp) (auto simp: p_def cacheWithStats_def)
qed










section \<open>Properties of the subscription registry\<close>

lemma indexOfFrom_absent: "x \<notin> set xs \<Longrightarrow> indexOfFrom x xs k = - 1"
  by (induction xs arbitrary: k) auto

lemma indexOfFrom_present:
  "x \<in> set xs \<Longrightarrow> 0 \<le> k \<Longrightarrow>
     k \<le> indexOfFrom x xs k
     \<and> take (nat (indexOfFrom x xs k - k)) xs @ drop (nat (indexOfFrom x xs k - k) + 1) xs = remove1 x xs"
proof (induction xs arbitrary: k)
  case Nil
  then show ?case by simp
next
  case (Cons y ys)
  show ?case
  proof (cases "y = x")
    case True
    then show ?thesis by simp
  next
    case False
    with Cons.prems have mem: "x \<in> set ys" by simp
    from Cons.prems have k1: "0 \<le> k + 1" by simp
    from Cons.IH[OF mem k1] have le: "k + 1 \<le> indexOfFrom x ys (k + 1)"
      and eq: "take (nat (indexOfFrom x ys (k + 1) - (k + 1))) ys
               @ drop (nat (indexOfFrom x ys (k + 1) - (k + 1)) + 1) ys = remove1 x ys"
      by simp_all
    have n: "nat (indexOfFrom x ys (k + 1) - k) = Suc (nat (indexOfFrom x ys (k + 1) - (k + 1)))"
      using le by simp
    from False le eq show ?thesis by (simp add: n)
  qed
qed

lemma splice1_indexOf:
  "splice1 (indexOf x xs) xs = remove1 x xs" if "x \<in> set xs"
  using indexOfFrom_present[OF that, of 0] by (simp add: splice1_def indexOf_def)

lemma indexOf_found: "indexOf x xs > - 1 \<longleftrightarrow> x \<in> set xs"
proof (cases "x \<in> set xs")
  case True
  with indexOfFrom_present[OF True, of 0] show ?thesis by (simp add: indexOf_def)
next
  case False
  then show ?thesis by (simp add: indexOf_def indexOfFrom_absent)
qed

text \<open>What an unsubscribe function and a registration do to the arrays and to the table.\<close>

lemma callbackArrays_unsubscribe:
  "callbackArrays (unsubscribe symb cb s) =
     (case map_of (priceCallbacks s) symb of
        None \<Rightarrow> callbackArrays s
      | Some a \<Rightarrow> (callbackArrays s)[a := remove1 cb (callbackArrays s ! a)])"
  by (auto simp: unsubscribe_def Let_def indexOf_found splice1_indexOf remove1_idem
        split: option.splits)

lemma unsubscribe_fields [simp]:
  "priceCallbacks (unsubscribe symb cb s) = priceCallbacks s"
  "priceDelivered (unsubscribe symb cb s) = priceDelivered s"
  "priceCache (unsubscribe symb cb s) = priceCache s"
  "connections (unsubscribe symb cb s) = connections s"
  "sockets (unsubscribe symb cb s) = sockets s"
  "timers (unsubscribe symb cb s) = timers s"
  "statusCallbacks (unsubscribe symb cb s) = statusCallbacks s"
  "statusDelivered (unsubscribe symb cb s) = statusDelivered s"
  "length (callbackArrays (unsubscribe symb cb s)) = length (callbackArrays s)"
  by (simp_all add: unsubscribe_def Let_def split: option.splits)

lemma unsubscribe_absent:
  "cb \<notin> set (callbacksOf s symb) \<Longrightarrow> unsubscribe symb cb s = s"
  by (auto simp: unsubscribe_def callbacksOf_def Let_def indexOf_found split: option.splits)

lemma address_valid:
  "registryWellFormed s \<Longrightarrow> map_of (priceCallbacks s) symb = Some a \<Longrightarrow> a < length (callbackArrays s)"
  using map_of_SomeD[of "priceCallbacks s" symb a]
  by (force simp: registryWellFormed_def list_all_iff)

lemma address_unique:
  assumes "registryWellFormed s"
    and "map_of (priceCallbacks s) symb = Some a" and "map_of (priceCallbacks s) symb' = Some a"
  shows "symb' = symb"
proof -
  have d: "distinct (map snd (priceCallbacks s))" using assms(1) by (simp add: registryWellFormed_def)
  from assms(2,3) have "(symb, a) \<in> set (priceCallbacks s)" and "(symb', a) \<in> set (priceCallbacks s)"
    by (auto dest: map_of_SomeD)
  with d show ?thesis
    by (metis (no_types, lifting) distinct_map inj_onD snd_conv prod.inject)
qed

lemma callbacksOf_unsubscribe:
  assumes "registryWellFormed s"
  shows "callbacksOf (unsubscribe symb cb s) symb' =
           (if symb' = symb then remove1 cb (callbacksOf s symb) else callbacksOf s symb')"
proof (cases "map_of (priceCallbacks s) symb")
  case None
  then show ?thesis
    by (cases "map_of (priceCallbacks s) symb'")
       (auto simp: callbacksOf_def callbackArrays_unsubscribe)
next
  case (Some a)
  have va: "a < length (callbackArrays s)" using assms Some by (rule address_valid)
  show ?thesis
  proof (cases "symb' = symb")
    case True
    with Some va show ?thesis by (simp add: callbacksOf_def callbackArrays_unsubscribe)
  next
    case False
    show ?thesis
    proof (cases "map_of (priceCallbacks s) symb'")
      case None
      with False show ?thesis by (simp add: callbacksOf_def)
    next
      case (Some a')
      have "a' \<noteq> a" using address_unique[OF assms \<open>map_of (priceCallbacks s) symb = Some a\<close>, of symb'] Some False
        by auto
      with False Some \<open>map_of (priceCallbacks s) symb = Some a\<close> show ?thesis
        by (simp add: callbacksOf_def callbackArrays_unsubscribe)
    qed
  qed
qed

lemma wf_unsubscribe: "registryWellFormed s \<Longrightarrow> registryWellFormed (unsubscribe symb cb s)"
  by (simp add: registryWellFormed_def)

lemma update_values:
  "set (map snd (AList.update k v al)) \<subseteq> insert v (set (map snd al))"
  by (induction al) auto

lemma update_distinct_values:
  "distinct (map snd al) \<Longrightarrow> v \<notin> set (map snd al) \<Longrightarrow> distinct (map snd (AList.update k v al))"
proof (induction al)
  case Nil
  show ?case by simp
next
  case (Cons p al)
  then show ?case using update_values[of k v al] by (cases p) auto
qed

lemma wf_onPriceUpdate: "registryWellFormed s \<Longrightarrow> registryWellFormed (onPriceUpdate symb cb s)"
proof -
  assume wf: "registryWellFormed s"
  let ?n = "length (callbackArrays s)"
  from wf have d: "distinct (map snd (priceCallbacks s))"
    and r: "\<forall>a \<in> set (map snd (priceCallbacks s)). a < ?n"
    by (simp_all add: registryWellFormed_def list_all_iff)
  show ?thesis
  proof (cases "map_of (priceCallbacks s) symb")
    case (Some a)
    with wf show ?thesis
      by (simp add: onPriceUpdate_def push_def registryWellFormed_def)
  next
    case None
    from r have fresh: "?n \<notin> set (map snd (priceCallbacks s))" by auto
    have d': "distinct (map snd (AList.update symb ?n (priceCallbacks s)))"
      using d fresh by (rule update_distinct_values)
    have r': "\<forall>a \<in> set (map snd (AList.update symb ?n (priceCallbacks s))). a < Suc ?n"
      using update_values[of symb ?n "priceCallbacks s"] r by fastforce
    from None d' r' show ?thesis
      by (simp add: onPriceUpdate_def push_def registryWellFormed_def list_all_iff update_conv')
  qed
qed

lemma callbacksOf_onPriceUpdate:
  assumes "registryWellFormed s"
  shows "callbacksOf (onPriceUpdate symb cb s) symb' =
           (if symb' = symb then callbacksOf s symb @ [cb] else callbacksOf s symb')"
proof (cases "map_of (priceCallbacks s) symb")
  case None
  show ?thesis
  proof (cases "symb' = symb")
    case True
    with None show ?thesis
      by (simp add: onPriceUpdate_def push_def callbacksOf_def update_conv')
  next
    case False
    show ?thesis
    proof (cases "map_of (priceCallbacks s) symb'")
      case None
      with False \<open>map_of (priceCallbacks s) symb = None\<close> show ?thesis
        by (simp add: onPriceUpdate_def push_def callbacksOf_def update_conv')
    next
      case (Some a')
      have "a' < length (callbackArrays s)" using assms Some by (rule address_valid)
      with False Some \<open>map_of (priceCallbacks s) symb = None\<close> show ?thesis
        by (simp add: onPriceUpdate_def push_def callbacksOf_def update_conv' nth_append)
    qed
  qed
next
  case (Some a)
  have va: "a < length (callbackArrays s)" using assms Some by (rule address_valid)
  show ?thesis
  proof (cases "symb' = symb")
    case True
    with Some va show ?thesis by (simp add: onPriceUpdate_def push_def callbacksOf_def)
  next
    case False
    show ?thesis
    proof (cases "map_of (priceCallbacks s) symb'")
      case None
      with False Some show ?thesis by (simp add: onPriceUpdate_def push_def callbacksOf_def)
    next
      case (Some a')
      have "a' \<noteq> a" using address_unique[OF assms \<open>map_of (priceCallbacks s) symb = Some a\<close>, of symb'] Some False
        by auto
      with False Some \<open>map_of (priceCallbacks s) symb = Some a\<close> show ?thesis
        by (simp add: onPriceUpdate_def push_def callbacksOf_def)
    qed
  qed
qed

text \<open>The fields a shutdown leaves as they are.\<close>

lemma closeIfOpen_fields [simp]:
  "connections (closeIfOpen s w) = connections s"
  "connectionStatus (closeIfOpen s w) = connectionStatus s"
  "priceCallbacks (closeIfOpen s w) = priceCallbacks s"
  "statusCallbacks (closeIfOpen s w) = statusCallbacks s"
  "reconnectTimers (closeIfOpen s w) = reconnectTimers s"
  "priceCache (closeIfOpen s w) = priceCache s"
  "callbackArrays (closeIfOpen s w) = callbackArrays s"
  "timers (closeIfOpen s w) = timers s"
  "clearedTimers (closeIfOpen s w) = clearedTimers s"
  "priceDelivered (closeIfOpen s w) = priceDelivered s"
  "statusDelivered (closeIfOpen s w) = statusDelivered s"
  "length (sockets (closeIfOpen s w)) = length (sockets s)"
  by (simp_all add: closeIfOpen_def setReadyState_def)

lemma closeAll_fields [simp]:
  "connections (foldl closeIfOpen s ws) = connections s"
  "connectionStatus (foldl closeIfOpen s ws) = connectionStatus s"
  "priceCallbacks (foldl closeIfOpen s ws) = priceCallbacks s"
  "statusCallbacks (foldl closeIfOpen s ws) = statusCallbacks s"
  "reconnectTimers (foldl closeIfOpen s ws) = reconnectTimers s"
  "priceCache (foldl closeIfOpen s ws) = priceCache s"
  "callbackArrays (foldl closeIfOpen s ws) = callbackArrays s"
  "timers (foldl closeIfOpen s ws) = timers s"
  "clearedTimers (foldl closeIfOpen s ws) = clearedTimers s"
  "priceDelivered (foldl closeIfOpen s ws) = priceDelivered s"
  "statusDelivered (foldl closeIfOpen s ws) = statusDelivered s"
  "length (sockets (foldl closeIfOpen s ws)) = length (sockets s)"
  by (induction ws arbitrary: s) simp_all

lemma clearTimeout_fields [simp]:
  "connections (clearTimeout s t) = connections s"
  "connectionStatus (clearTimeout s t) = connectionStatus s"
  "priceCallbacks (clearTimeout s t) = priceCallbacks s"
  "statusCallbacks (clearTimeout s t) = statusCallbacks s"
  "reconnectTimers (clearTimeout s t) = reconnectTimers s"
  "priceCache (clearTimeout s t) = priceCache s"
  "callbackArrays (clearTimeout s t) = callbackArrays s"
  "closeCalls (clearTimeout s t) = closeCalls s"
  "sockets (clearTimeout s t) = sockets s"
  "priceDelivered (clearTimeout s t) = priceDelivered s"
  "statusDelivered (clearTimeout s t) = statusDelivered s"
  "clearedTimers (clearTimeout s t) = clearedTimers s @ [t]"
  by (simp_all add: clearTimeout_def)

lemma clearAll_fields [simp]:
  "connections (foldl clearTimeout s ts) = connections s"
  "connectionStatus (foldl clearTimeout s ts) = connectionStatus s"
  "priceCallbacks (foldl clearTimeout s ts) = priceCallbacks s"
  "statusCallbacks (foldl clearTimeout s ts) = statusCallbacks s"
  "reconnectTimers (foldl clearTimeout s ts) = reconnectTimers s"
  "priceCache (foldl clearTimeout s ts) = priceCache s"
  "callbackArrays (foldl clearTimeout s ts) = callbackArrays s"
  "closeCalls (foldl clearTimeout s ts) = closeCalls s"
  "sockets (foldl clearTimeout s ts) = sockets s"
  "priceDelivered (foldl clearTimeout s ts) = priceDelivered s"
  "statusDelivered (foldl clearTimeout s ts) = statusDelivered s"
  "clearedTimers (foldl clearTimeout s ts) = clearedTimers s @ ts"
  by (induction ts arbitrary: s) simp_all

lemma disconnect_fields [simp]:
  "callbackArrays (disconnect s) = callbackArrays s"
  "priceDelivered (disconnect s) = priceDelivered s"
  "statusDelivered (disconnect s) = statusDelivered s"
  "length (sockets (disconnect s)) = length (sockets s)"
  by (simp_all add: disconnect_def Let_def)

lemma disconnect_tables:
  "connections (disconnect s) = [] \<and> connectionStatus (disconnect s) = []
   \<and> priceCallbacks (disconnect s) = [] \<and> statusCallbacks (disconnect s) = []
   \<and> reconnectTimers (disconnect s) = [] \<and> priceCache (disconnect s) = []"
  by (simp add: disconnect_def Let_def)

lemma onPriceUpdate_fields [simp]:
  "priceDelivered (onPriceUpdate symb cb s) = priceDelivered s"
  "statusDelivered (onPriceUpdate symb cb s) = statusDelivered s"
  "priceCache (onPriceUpdate symb cb s) = priceCache s"
  "connections (onPriceUpdate symb cb s) = connections s"
  "sockets (onPriceUpdate symb cb s) = sockets s"
  "statusCallbacks (onPriceUpdate symb cb s) = statusCallbacks s"
  by (simp_all add: onPriceUpdate_def push_def Let_def split: option.splits)

lemma updateConnectionStatus_registry:
  "priceDelivered (updateConnectionStatus exch st lat err n s) = priceDelivered s"
  "callbackArrays (updateConnectionStatus exch st lat err n s) = callbackArrays s"
  "priceCallbacks (updateConnectionStatus exch st lat err n s) = priceCallbacks s"
  by (simp_all add: updateConnectionStatus_def Let_def)

lemma scheduleReconnection_registry:
  "priceDelivered (scheduleReconnection exch s) = priceDelivered s"
  "callbackArrays (scheduleReconnection exch s) = callbackArrays s"
  "priceCallbacks (scheduleReconnection exch s) = priceCallbacks s"
  by (simp_all add: scheduleReconnection_def Let_def)

lemma connectToExchange_registry:
  "priceDelivered (connectToExchange exch created s) = priceDelivered s"
  "callbackArrays (connectToExchange exch created s) = callbackArrays s"
  "priceCallbacks (connectToExchange exch created s) = priceCallbacks s"
  by (simp_all add: connectToExchange_def Let_def updateConnectionStatus_registry
        scheduleReconnection_registry)

lemma subscribeStart_registry:
  "priceDelivered (subscribeStart created s) = priceDelivered s"
  "callbackArrays (subscribeStart created s) = callbackArrays s"
  "priceCallbacks (subscribeStart created s) = priceCallbacks s"
  by (simp_all add: subscribeStart_def connectToExchange_registry split: list.splits)

lemma runAction_delivered [simp]: "priceDelivered (runAction s a) = priceDelivered s"
  by (cases a)
     (simp_all add: onStatusUpdate_def unsubscribeStatus_def Let_def subscribeStart_registry)

lemma runActions_delivered [simp]: "priceDelivered (foldl runAction s as) = priceDelivered s"
  by (induction as arbitrary: s) simp_all

lemma invoke_delivered:
  "priceDelivered (invoke beh cb p s) = priceDelivered s @ [(cb, p)]"
  by (simp add: invoke_def)

text \<open>
  A callback that is not in an array does not come into it unless it is registered again: no
  other call adds it.
\<close>

lemma nth_update_cases:
  "a < length xs \<Longrightarrow> xs[a' := v] ! a = (if a' = a then v else xs ! a)"
  by (cases "a' = a") simp_all

lemma absent_onPriceUpdate:
  assumes "absentFrom cb a s" and "c \<noteq> cb"
  shows "absentFrom cb a (onPriceUpdate sy c s)"
proof (cases "map_of (priceCallbacks s) sy")
  case None
  with assms show ?thesis
    by (auto simp: absentFrom_def onPriceUpdate_def push_def update_conv' nth_append nth_update_cases)
next
  case (Some a')
  with assms show ?thesis
    by (auto simp: absentFrom_def onPriceUpdate_def push_def nth_update_cases)
qed

lemma absent_unsubscribe:
  assumes "absentFrom cb a s"
  shows "absentFrom cb a (unsubscribe sy c s)"
proof (cases "map_of (priceCallbacks s) sy")
  case None
  with assms show ?thesis by (simp add: absentFrom_def callbackArrays_unsubscribe)
next
  case (Some a')
  with assms show ?thesis
    using set_remove1_subset[of c "callbackArrays s ! a'"]
    by (auto simp: absentFrom_def callbackArrays_unsubscribe nth_update_cases)
qed

lemma absent_runAction:
  assumes "absentFrom cb a s" and "\<forall>sy. act \<noteq> OnPriceUpdate sy cb"
  shows "absentFrom cb a (runAction s act)"
proof (cases act)
  case (Unsubscribe sy c)
  with assms(1) show ?thesis by (simp add: absent_unsubscribe)
next
  case (UnsubscribeStatus c)
  with assms(1) show ?thesis by (simp add: absentFrom_def unsubscribeStatus_def Let_def)
next
  case (OnPriceUpdate sy c)
  with assms(2) have "c \<noteq> cb" by simp
  with assms(1) OnPriceUpdate show ?thesis by (simp add: absent_onPriceUpdate)
next
  case (OnStatusUpdate c)
  with assms(1) show ?thesis by (simp add: absentFrom_def onStatusUpdate_def)
next
  case Disconnect
  with assms(1) show ?thesis by (simp add: absentFrom_def)
next
  case (SubscribeCalled created)
  with assms(1) show ?thesis by (simp add: absentFrom_def subscribeStart_registry)
qed

lemma absent_runActions:
  assumes "absentFrom cb a s" and "\<forall>sy. OnPriceUpdate sy cb \<notin> set as"
  shows "absentFrom cb a (foldl runAction s as)"
  using assms
proof (induction as arbitrary: s)
  case Nil
  then show ?case by simp
next
  case (Cons act as)
  from Cons.prems(2) have "\<forall>sy. act \<noteq> OnPriceUpdate sy cb" by auto
  with Cons.prems(1) have "absentFrom cb a (runAction s act)" by (rule absent_runAction)
  moreover from Cons.prems(2) have "\<forall>sy. OnPriceUpdate sy cb \<notin> set as" by auto
  ultimately show ?case using Cons.IH by simp
qed

lemma absent_invoke:
  assumes "absentFrom cb a s" and "\<forall>sy. OnPriceUpdate sy cb \<notin> set (beh c p)"
  shows "absentFrom cb a (invoke beh c p s)"
proof -
  have "absentFrom cb a (s\<lparr>priceDelivered := priceDelivered s @ [(c, p)]\<rparr>)"
    using assms(1) by (simp add: absentFrom_def)
  from absent_runActions[OF this assms(2)] show ?thesis by (simp add: invoke_def)
qed

lemma absent_forEach:
  assumes "absentFrom cb a s" and "\<forall>c q sy. OnPriceUpdate sy cb \<notin> set (beh c q)"
  shows "absentFrom cb a (foldl (forEachStep beh a p) s ks)
         \<and> (\<exists>D. priceDelivered (foldl (forEachStep beh a p) s ks) = priceDelivered s @ D
                \<and> cb \<notin> fst ` set D)"
  using assms(1)
proof (induction ks arbitrary: s rule: rev_induct)
  case Nil
  then show ?case by simp
next
  case (snoc k ks)
  define t where "t = foldl (forEachStep beh a p) s ks"
  from snoc.IH[OF snoc.prems] obtain D where
    ab: "absentFrom cb a t" and del: "priceDelivered t = priceDelivered s @ D"
    and cD: "cb \<notin> fst ` set D"
    unfolding t_def by blast
  have st: "foldl (forEachStep beh a p) s (ks @ [k]) = forEachStep beh a p t k"
    by (simp add: t_def)
  show ?case
  proof (cases "k < length (callbackArrays t ! a)")
    case False
    then have "forEachStep beh a p t k = t" by (simp add: forEachStep_def)
    with ab del cD show ?thesis unfolding st by auto
  next
    case True
    define c where "c = callbackArrays t ! a ! k"
    have cne: "c \<noteq> cb" using True ab unfolding c_def absentFrom_def by (metis nth_mem)
    have fe: "forEachStep beh a p t k = invoke beh c p t"
      using True by (simp add: forEachStep_def c_def)
    have ab': "absentFrom cb a (invoke beh c p t)"
      using ab assms(2) by (intro absent_invoke) auto
    have "priceDelivered (invoke beh c p t) = priceDelivered s @ (D @ [(c, p)])"
      by (simp add: invoke_delivered del)
    moreover have "cb \<notin> fst ` set (D @ [(c, p)])" using cD cne by auto
    ultimately show ?thesis unfolding st fe using ab' by blast
  qed
qed

lemma aggregatePriceData_state: "aggregatePriceData symb t = (fst (aggregatePriceData symb t), t)"
  by (simp add: aggregatePriceData_char Let_def split: option.splits)

lemma handlePriceUpdate_forEach:
  "handlePriceUpdate beh u s =
     (let s1 = s\<lparr>priceCache := AList.update (symbol u @ ''_'' @ source u) u (priceCache s)\<rparr>
      in case fst (aggregatePriceData (symbol u) s1) of
           None \<Rightarrow> s1
         | Some best \<Rightarrow> forEachCallback beh (map_of (priceCallbacks s) (symbol u)) best s1)"
proof -
  define s1 where "s1 = s\<lparr>priceCache := AList.update (symbol u @ ''_'' @ source u) u (priceCache s)\<rparr>"
  define r where "r = fst (aggregatePriceData (symbol u) s1)"
  have eq: "aggregatePriceData (symbol u) s1 = (r, s1)"
    unfolding r_def by (rule aggregatePriceData_state)
  have pc: "priceCallbacks s1 = priceCallbacks s" by (simp add: s1_def)
  have "handlePriceUpdate beh u s =
          (case r of None \<Rightarrow> s1
           | Some best \<Rightarrow> forEachCallback beh (map_of (priceCallbacks s) (symbol u)) best s1)"
    unfolding handlePriceUpdate_def Let_def s1_def[symmetric] eq pc by simp
  then show ?thesis unfolding r_def s1_def Let_def .
qed

lemma never_invoked_when_absent:
  assumes "registryWellFormed t" and "cb \<notin> set (callbacksOf t (symbol u))"
    and "\<forall>c q sy. OnPriceUpdate sy cb \<notin> set (beh c q)"
  shows "cb \<notin> fst ` set (drop (length (priceDelivered t)) (priceDelivered (handlePriceUpdate beh u t)))"
proof -
  define s1 where "s1 = t\<lparr>priceCache := AList.update (symbol u @ ''_'' @ source u) u (priceCache t)\<rparr>"
  have pd: "priceDelivered s1 = priceDelivered t" by (simp add: s1_def)
  have h: "handlePriceUpdate beh u t =
             (case fst (aggregatePriceData (symbol u) s1) of
                None \<Rightarrow> s1
              | Some best \<Rightarrow> forEachCallback beh (map_of (priceCallbacks t) (symbol u)) best s1)"
    unfolding s1_def by (simp only: handlePriceUpdate_forEach Let_def)
  show ?thesis
  proof (cases "fst (aggregatePriceData (symbol u) s1)")
    case None
    with h pd show ?thesis by simp
  next
    case (Some best)
    show ?thesis
    proof (cases "map_of (priceCallbacks t) (symbol u)")
      case None
      with h Some pd show ?thesis by (simp add: forEachCallback_def)
    next
      case (Some a)
      have va: "a < length (callbackArrays t)" using assms(1) Some by (rule address_valid)
      have "absentFrom cb a s1"
        using assms(2) Some va by (simp add: absentFrom_def callbacksOf_def s1_def)
      from absent_forEach[OF this assms(3), of best "[0..<length (callbackArrays s1 ! a)]"]
      obtain D where "priceDelivered (forEachCallback beh (Some a) best s1) = priceDelivered s1 @ D"
        and "cb \<notin> fst ` set D"
        by (auto simp: forEachCallback_def)
      with h \<open>fst (aggregatePriceData (symbol u) s1) = Some best\<close> Some pd show ?thesis by simp
    qed
  qed
qed

lemmas registry_defs = onPriceUpdate_def push_def unsubscribe_def callbacksOf_def newService_def
  indexOf_def splice1_def handlePriceUpdate_def forEachCallback_def forEachStep_def invoke_def
  aggregatePriceData_def collectSources_def startsWith_def isFresh_def fl_sub_def js_sub_def
  tick_def btcTick_def silent_def registryWellFormed_def Let_def

text \<open>
  Claim C7, amended. In a well-formed registry (the registry is so in every state the service
  reaches, lemma \<open>reachable_registry_and_cache\<close>), \<open>onPriceUpdate\<close> appends one occurrence
  of the callback to the symbol's list. A call of the function it returns removes the first
  occurrence of the callback from the list the table then holds for the symbol, and only that:
  the list is one element shorter when it holds the callback, the lists of the other symbols
  stay as they are, and the call is a no-op, leaving the whole state as it is, when the list
  does not hold the callback. So when the list holds the callback once, the first call removes
  it and a second call made next is a no-op; and a delivery for the symbol that begins while
  the list does not hold the callback does not invoke it, provided that no callback registers
  it during the delivery.
\<close>

theorem C7_unsubscribe_single_registration:
  assumes "registryWellFormed t"
  shows "callbacksOf (onPriceUpdate symb cb t) symb = callbacksOf t symb @ [cb]
   \<and> callbacksOf (unsubscribe symb cb t) symb = remove1 cb (callbacksOf t symb)
   \<and> (\<forall>sy. sy \<noteq> symb \<longrightarrow> callbacksOf (unsubscribe symb cb t) sy = callbacksOf t sy)
   \<and> (cb \<in> set (callbacksOf t symb) \<longrightarrow>
        length (callbacksOf (unsubscribe symb cb t) symb) + 1 = length (callbacksOf t symb)
        \<and> count_list (callbacksOf (unsubscribe symb cb t) symb) cb + 1
            = count_list (callbacksOf t symb) cb)
   \<and> (cb \<notin> set (callbacksOf t symb) \<longrightarrow> unsubscribe symb cb t = t)
   \<and> (count_list (callbacksOf t symb) cb = 1 \<longrightarrow>
        cb \<notin> set (callbacksOf (unsubscribe symb cb t) symb)
        \<and> unsubscribe symb cb (unsubscribe symb cb t) = unsubscribe symb cb t)
   \<and> (cb \<notin> set (callbacksOf t symb) \<longrightarrow>
        (\<forall>beh u. symbol u = symb \<and> (\<forall>c q sy. OnPriceUpdate sy cb \<notin> set (beh c q)) \<longrightarrow>
              cb \<notin> fst ` set (drop (length (priceDelivered t))
                                   (priceDelivered (handlePriceUpdate beh u t)))))"
proof -
  have reg: "callbacksOf (onPriceUpdate symb cb t) symb = callbacksOf t symb @ [cb]"
    using assms by (simp add: callbacksOf_onPriceUpdate)
  have uns: "callbacksOf (unsubscribe symb cb t) symb = remove1 cb (callbacksOf t symb)"
    using assms by (simp add: callbacksOf_unsubscribe)
  have others: "\<forall>sy. sy \<noteq> symb \<longrightarrow> callbacksOf (unsubscribe symb cb t) sy = callbacksOf t sy"
    using assms by (simp add: callbacksOf_unsubscribe)
  have cnt: "count_list (remove1 cb xs) cb + 1 = count_list xs cb" if "cb \<in> set xs" for xs :: "nat list"
    using that by (induction xs) auto
  have one: "length (callbacksOf (unsubscribe symb cb t) symb) + 1 = length (callbacksOf t symb)
        \<and> count_list (callbacksOf (unsubscribe symb cb t) symb) cb + 1
            = count_list (callbacksOf t symb) cb"
    if "cb \<in> set (callbacksOf t symb)"
  proof -
    from that have "0 < length (callbacksOf t symb)" by (cases "callbacksOf t symb") simp_all
    with that have l: "length (remove1 cb (callbacksOf t symb)) + 1 = length (callbacksOf t symb)"
      by (simp add: length_remove1)
    from l cnt[OF that] show ?thesis unfolding uns by (rule conjI)
  qed
  have noop: "unsubscribe symb cb t = t" if "cb \<notin> set (callbacksOf t symb)"
    using that by (rule unsubscribe_absent)
  have gone: "cb \<notin> set (callbacksOf (unsubscribe symb cb t) symb)
        \<and> unsubscribe symb cb (unsubscribe symb cb t) = unsubscribe symb cb t"
    if c1: "count_list (callbacksOf t symb) cb = 1"
  proof -
    from c1 have mem: "cb \<in> set (callbacksOf t symb)"
      by (metis count_list_0_iff zero_neq_one)
    from one[OF mem] c1 have "count_list (callbacksOf (unsubscribe symb cb t) symb) cb = 0" by simp
    then have "cb \<notin> set (callbacksOf (unsubscribe symb cb t) symb)"
      by (simp add: count_list_0_iff)
    then show ?thesis by (simp add: unsubscribe_absent)
  qed
  have quietly: "cb \<notin> fst ` set (drop (length (priceDelivered t))
                                   (priceDelivered (handlePriceUpdate beh u t)))"
    if "cb \<notin> set (callbacksOf t symb)" and "symbol u = symb"
      and "\<forall>c q sy. OnPriceUpdate sy cb \<notin> set (beh c q)" for beh u
    using never_invoked_when_absent[OF assms, of cb u beh] that by simp
  from reg uns others one noop gone quietly show ?thesis
    by (simp only: ) blast
qed

text \<open>
  A callback registered once beside another: removed by the first call, the second call is a
  no-op, and a later delivery does not reach it.
\<close>

theorem C7_unsubscribe_single_registration_witness:
  "(let s = onPriceUpdate ''BTC'' 3 newService;
        s1 = onPriceUpdate ''BTC'' 7 s;
        s2 = unsubscribe ''BTC'' 7 s1;
        s3 = unsubscribe ''BTC'' 7 s2
    in registryWellFormed s \<and> registryWellFormed s1
       \<and> callbacksOf s ''BTC'' = [3]
       \<and> callbacksOf s1 ''BTC'' = [3, 7]
       \<and> count_list (callbacksOf s1 ''BTC'') 7 = 1
       \<and> callbacksOf s2 ''BTC'' = [3]
       \<and> s3 = s2
       \<and> 7 \<notin> fst ` set (drop (length (priceDelivered s2))
                              (priceDelivered (handlePriceUpdate silent btcTick s2))))"
proof -
  define s where "s = onPriceUpdate ''BTC'' 3 newService"
  define s1 where "s1 = onPriceUpdate ''BTC'' 7 s"
  define s2 where "s2 = unsubscribe ''BTC'' 7 s1"
  have wf: "registryWellFormed s" by (simp add: s_def registry_defs)
  have wf1: "registryWellFormed s1" unfolding s1_def using wf by (rule wf_onPriceUpdate)
  have wf2: "registryWellFormed s2" unfolding s2_def using wf1 by (rule wf_unsubscribe)
  have c: "callbacksOf s ''BTC'' = [3]" by (simp add: s_def registry_defs)
  have sy: "symbol btcTick = ''BTC''" by (simp add: btcTick_def tick_def)
  have sil: "\<forall>c q sy. OnPriceUpdate sy 7 \<notin> set (silent c q)" by (simp add: silent_def)
  note r = C7_unsubscribe_single_registration[OF wf, of "''BTC''" 7]
  note r1 = C7_unsubscribe_single_registration[OF wf1, of "''BTC''" 7]
  note r2 = C7_unsubscribe_single_registration[OF wf2, of "''BTC''" 7]
  from r c have c1: "callbacksOf s1 ''BTC'' = [3, 7]" by (simp add: s1_def)
  then have n1: "count_list (callbacksOf s1 ''BTC'') 7 = 1" by simp
  from r1 c1 have c2: "callbacksOf s2 ''BTC'' = [3]" by (simp add: s2_def)
  then have b: "7 \<notin> set (callbacksOf s2 ''BTC'')" by simp
  from r2 b have u: "unsubscribe ''BTC'' 7 s2 = s2" by blast
  from r2 b sy sil
  have q: "7 \<notin> fst ` set (drop (length (priceDelivered s2))
                              (priceDelivered (handlePriceUpdate silent btcTick s2)))"
    by blast
  from wf wf1 c c1 n1 c2 u q show ?thesis
    unfolding Let_def s_def[symmetric] s1_def[symmetric] s2_def[symmetric] by simp
qed

text \<open>
  Claim C7 as stated fails when the same callback is registered twice for a symbol: the second
  call of the first unsubscribe function is not a no-op, it removes the other registration;
  and between the two calls the callback is still invoked.
\<close>

theorem C7_double_registration_counterexample:
  "(let s1 = onPriceUpdate ''BTC'' 7 (onPriceUpdate ''BTC'' 7 newService);
        s2 = unsubscribe ''BTC'' 7 s1;
        s3 = unsubscribe ''BTC'' 7 s2
    in callbacksOf s1 ''BTC'' = [7, 7]
       \<and> callbacksOf s2 ''BTC'' = [7]
       \<and> callbacksOf s3 ''BTC'' = []
       \<and> s3 \<noteq> s2
       \<and> map fst (priceDelivered (handlePriceUpdate silent btcTick s2)) = [7])"
  by (simp add: registry_defs)

text \<open>Lists under removals.\<close>

lemma drop_remove1_subset: "set (drop n (remove1 x xs)) \<subseteq> set (drop n xs)"
proof (induction xs arbitrary: n)
  case Nil
  show ?case by simp
next
  case (Cons y ys)
  show ?case
  proof (cases n)
    case 0
    then show ?thesis using set_remove1_subset[of x "y # ys"] by simp
  next
    case (Suc m)
    show ?thesis
    proof (cases "x = y")
      case True
      with Suc show ?thesis by (simp add: set_drop_subset_set_drop)
    next
      case False
      with Suc Cons.IH[of m] show ?thesis by simp
    qed
  qed
qed

lemma narrower_refl: "narrower xs xs"
  by (simp add: narrower_def)

lemma narrower_trans: "narrower zs ys \<Longrightarrow> narrower ys xs \<Longrightarrow> narrower zs xs"
  unfolding narrower_def by blast

lemma narrower_remove1: "narrower (remove1 x xs) xs"
  by (simp add: narrower_def drop_remove1_subset)

lemma narrower_set: "narrower ys xs \<Longrightarrow> set ys \<subseteq> set xs"
  unfolding narrower_def by (metis drop0)

lemma nth_notin_drop_Suc:
  assumes "distinct xs" and "n < length xs"
  shows "xs ! n \<notin> set (drop (Suc n) xs)"
proof -
  have "xs = take n xs @ xs ! n # drop (Suc n) xs"
    using assms(2) by (rule id_take_nth_drop)
  then have "distinct (take n xs @ xs ! n # drop (Suc n) xs)" using assms(1) by simp
  then show ?thesis by simp
qed

lemma take_remove1: "c \<notin> set (take n xs) \<Longrightarrow> take n (remove1 c xs) = take n xs"
proof (induction xs arbitrary: n)
  case Nil
  show ?case by simp
next
  case (Cons x xs)
  show ?case
  proof (cases n)
    case 0
    then show ?thesis by simp
  next
    case (Suc m)
    with Cons.prems have "c \<noteq> x" and "c \<notin> set (take m xs)" by simp_all
    with Cons.IH[of m] Suc show ?thesis by simp
  qed
qed

lemma remove1_filter:
  "distinct xs \<Longrightarrow> remove1 c (filter P xs) = filter (\<lambda>x. P x \<and> x \<noteq> c) xs"
proof (induction xs)
  case Nil
  show ?case by simp
next
  case (Cons x xs)
  then have IH: "remove1 c (filter P xs) = filter (\<lambda>x. P x \<and> x \<noteq> c) xs" and nx: "x \<notin> set xs"
    by simp_all
  show ?case
  proof (cases "x = c")
    case True
    with nx have "filter (\<lambda>x. P x \<and> x \<noteq> c) xs = filter P xs"
      by (intro filter_cong) auto
    with True show ?thesis by simp
  next
    case False
    with IH show ?thesis by simp
  qed
qed

lemma take_filter_prefix:
  "k < length (filter P xs) \<Longrightarrow>
   \<exists>i < length xs. xs ! i = filter P xs ! k \<and> take (Suc k) (filter P xs) = filter P (take (Suc i) xs)"
proof (induction xs arbitrary: k)
  case Nil
  then show ?case by simp
next
  case (Cons x xs)
  show ?case
  proof (cases "P x")
    case False
    with Cons.prems have "k < length (filter P xs)" by simp
    from Cons.IH[OF this] obtain i where "i < length xs" and "xs ! i = filter P xs ! k"
      and "take (Suc k) (filter P xs) = filter P (take (Suc i) xs)" by blast
    with False show ?thesis by (intro exI[of _ "Suc i"]) simp
  next
    case True
    show ?thesis
    proof (cases k)
      case 0
      with True show ?thesis by (intro exI[of _ 0]) simp
    next
      case (Suc k')
      with True Cons.prems have "k' < length (filter P xs)" by simp
      from Cons.IH[OF this] obtain i where "i < length xs" and "xs ! i = filter P xs ! k'"
        and "take (Suc k') (filter P xs) = filter P (take (Suc i) xs)" by blast
      with True Suc show ?thesis by (intro exI[of _ "Suc i"]) simp
    qed
  qed
qed

text \<open>What a call of an unsubscribe function does to a given array.\<close>

lemma array_unsubscribe:
  "a < length (callbackArrays s) \<Longrightarrow>
   callbackArrays (unsubscribe sy c s) ! a =
     (if map_of (priceCallbacks s) sy = Some a then remove1 c (callbackArrays s ! a)
      else callbackArrays s ! a)"
  by (cases "map_of (priceCallbacks s) sy")
     (auto simp: callbackArrays_unsubscribe nth_update_cases)

lemma unsubscribes_narrow:
  assumes "a < length (callbackArrays s)" and "list_all isUnsubscribe as"
  shows "narrower (callbackArrays (foldl runAction s as) ! a) (callbackArrays s ! a)
         \<and> priceCallbacks (foldl runAction s as) = priceCallbacks s
         \<and> length (callbackArrays (foldl runAction s as)) = length (callbackArrays s)"
  using assms
proof (induction as arbitrary: s)
  case Nil
  show ?case by (simp add: narrower_refl)
next
  case (Cons act as)
  from Cons.prems(2) obtain sy c where act: "act = Unsubscribe sy c" by (cases act) simp_all
  define s' where "s' = unsubscribe sy c s"
  have va: "a < length (callbackArrays s')" using Cons.prems(1) by (simp add: s'_def)
  have n1: "narrower (callbackArrays s' ! a) (callbackArrays s ! a)"
    using Cons.prems(1) by (simp add: s'_def array_unsubscribe narrower_refl narrower_remove1)
  from Cons.prems(2) have "list_all isUnsubscribe as" by simp
  from Cons.IH[OF va this] n1 show ?case
    by (auto simp: act s'_def[symmetric] intro: narrower_trans) (simp_all add: s'_def)
qed

lemma forEach_unsubscribing:
  assumes "a < length (callbackArrays s)" and "cbs = callbackArrays s ! a"
    and "onlyUnsubscribes beh p cbs" and "n \<le> length cbs"
  shows "\<exists>D. priceDelivered (foldl (forEachStep beh a p) s [0..<n])
               = priceDelivered s @ map (\<lambda>c. (c, p)) D
            \<and> set D \<subseteq> set cbs
            \<and> narrower (callbackArrays (foldl (forEachStep beh a p) s [0..<n]) ! a) cbs
            \<and> priceCallbacks (foldl (forEachStep beh a p) s [0..<n]) = priceCallbacks s
            \<and> length (callbackArrays (foldl (forEachStep beh a p) s [0..<n]))
                = length (callbackArrays s)
            \<and> (distinct cbs \<longrightarrow>
                 distinct D
                 \<and> set D \<inter> set (drop n (callbackArrays (foldl (forEachStep beh a p) s [0..<n]) ! a)) = {})"
  using assms(4)
proof (induction n)
  case 0
  show ?case by (simp add: narrower_refl assms(2))
next
  case (Suc n)
  define t where "t = foldl (forEachStep beh a p) s [0..<n]"
  define cur where "cur = callbackArrays t ! a"
  from Suc obtain D where
    del: "priceDelivered t = priceDelivered s @ map (\<lambda>c. (c, p)) D"
    and sub: "set D \<subseteq> set cbs"
    and nar: "narrower cur cbs"
    and tab: "priceCallbacks t = priceCallbacks s"
    and len: "length (callbackArrays t) = length (callbackArrays s)"
    and dis: "distinct cbs \<longrightarrow> distinct D \<and> set D \<inter> set (drop n cur) = {}"
    unfolding t_def cur_def by auto
  have step: "foldl (forEachStep beh a p) s [0..<Suc n] = forEachStep beh a p t n"
    by (simp add: t_def)
  show ?case
  proof (cases "n < length cur")
    case False
    then have same: "forEachStep beh a p t n = t"
      by (simp add: forEachStep_def cur_def)
    have "set (drop (Suc n) cur) \<subseteq> set (drop n cur)"
      by (rule set_drop_subset_set_drop) simp
    with del sub nar tab len dis show ?thesis
      unfolding step same cur_def[symmetric]
      by (intro exI[of _ D]) auto
  next
    case True
    define c where "c = cur ! n"
    define t0 where "t0 = t\<lparr>priceDelivered := priceDelivered t @ [(c, p)]\<rparr>"
    define t' where "t' = invoke beh c p t"
    have st: "forEachStep beh a p t n = t'"
      using True by (simp add: forEachStep_def cur_def t'_def c_def)
    have cin: "c \<in> set (drop n cur)"
      using True by (simp add: c_def in_set_conv_nth) (metis add.right_neutral add_diff_cancel_left' le_add_diff_inverse less_imp_le_nat nat_add_left_cancel_less zero_less_diff)
    have ccbs: "c \<in> set cbs"
      using True nar narrower_set c_def by (metis nth_mem subsetD)
    then have acts: "list_all isUnsubscribe (beh c p)"
      using assms(3) by (simp add: onlyUnsubscribes_def list_all_iff)
    have va0: "a < length (callbackArrays t0)" using assms(1) len by (simp add: t0_def)
    have t'0: "t' = foldl runAction t0 (beh c p)" by (simp add: t'_def invoke_def t0_def)
    from unsubscribes_narrow[OF va0 acts]
    have nar': "narrower (callbackArrays t' ! a) cur"
      and tab': "priceCallbacks t' = priceCallbacks s"
      and len': "length (callbackArrays t') = length (callbackArrays s)"
      using tab len by (simp_all add: t'0 cur_def) (simp_all add: t0_def)
    have nar2: "narrower (callbackArrays t' ! a) cbs"
      using nar' nar by (rule narrower_trans)
    have del': "priceDelivered t' = priceDelivered s @ map (\<lambda>c. (c, p)) (D @ [c])"
      by (simp add: t'_def invoke_delivered del)
    have dis': "distinct (D @ [c]) \<and> set (D @ [c]) \<inter> set (drop (Suc n) (callbackArrays t' ! a)) = {}"
      if d: "distinct cbs"
    proof -
      from d dis have dD: "distinct D" and disj: "set D \<inter> set (drop n cur) = {}" by simp_all
      from d nar have dcur: "distinct cur" by (simp add: narrower_def)
      from cin disj have cD: "c \<notin> set D" by auto
      have s1: "set (drop (Suc n) (callbackArrays t' ! a)) \<subseteq> set (drop (Suc n) cur)"
        using nar' by (simp add: narrower_def)
      have s2: "set (drop (Suc n) cur) \<subseteq> set (drop n cur)"
        by (rule set_drop_subset_set_drop) simp
      have cn: "c \<notin> set (drop (Suc n) cur)"
        unfolding c_def using dcur True by (rule nth_notin_drop_Suc)
      from dD cD disj s1 s2 cn show ?thesis by auto
    qed
    from del' sub ccbs nar2 tab' len' dis' show ?thesis
      unfolding step st
      by (intro exI[of _ "D @ [c]"]) auto
  qed
qed

text \<open>
  Removals behind the current position: the array stays the initial list without the removed
  callbacks, and its part up to the current position stays as it is.
\<close>

lemma unsubscribes_behind:
  assumes "registryWellFormed s" and "map_of (priceCallbacks s) symb = Some a"
    and "distinct cbs" and "callbackArrays s ! a = filter P cbs"
    and "list_all isUnsubscribe as"
    and "\<forall>c \<in> set (take m (filter P cbs)). Unsubscribe symb c \<notin> set as"
  shows "\<exists>P'. callbackArrays (foldl runAction s as) ! a = filter P' cbs
              \<and> take m (filter P' cbs) = take m (filter P cbs)
              \<and> priceCallbacks (foldl runAction s as) = priceCallbacks s
              \<and> length (callbackArrays (foldl runAction s as)) = length (callbackArrays s)"
  using assms(1,2,4,5,6)
proof (induction as arbitrary: s P)
  case Nil
  then show ?case by auto
next
  case (Cons act as)
  from Cons.prems(4) obtain sy c where act: "act = Unsubscribe sy c" by (cases act) simp_all
  define s' where "s' = unsubscribe sy c s"
  have va: "a < length (callbackArrays s)" using Cons.prems(1,2) by (rule address_valid)
  have wf': "registryWellFormed s'" unfolding s'_def using Cons.prems(1) by (rule wf_unsubscribe)
  have ent': "map_of (priceCallbacks s') symb = Some a" using Cons.prems(2) by (simp add: s'_def)
  have "\<exists>P'. callbackArrays s' ! a = filter P' cbs \<and> take m (filter P' cbs) = take m (filter P cbs)"
  proof (cases "map_of (priceCallbacks s) sy = Some a")
    case False
    with va Cons.prems(3) show ?thesis by (auto simp: s'_def array_unsubscribe)
  next
    case True
    with Cons.prems(1,2) have "sy = symb" by (metis address_unique)
    with Cons.prems(5) act have "c \<notin> set (take m (filter P cbs))" by auto
    then have tk: "take m (remove1 c (filter P cbs)) = take m (filter P cbs)" by (rule take_remove1)
    have "callbackArrays s' ! a = remove1 c (filter P cbs)"
      using va True Cons.prems(3) by (simp add: s'_def array_unsubscribe)
    with tk remove1_filter[OF assms(3), of c P] show ?thesis by auto
  qed
  then obtain P' where cur': "callbackArrays s' ! a = filter P' cbs"
    and tk': "take m (filter P' cbs) = take m (filter P cbs)" by blast
  from Cons.prems(4) have acts: "list_all isUnsubscribe as" by simp
  from Cons.prems(5) tk' have safe: "\<forall>c \<in> set (take m (filter P' cbs)). Unsubscribe symb c \<notin> set as"
    by simp
  from Cons.IH[OF wf' ent' cur' acts safe] obtain P'' where
    "callbackArrays (foldl runAction s' as) ! a = filter P'' cbs"
    "take m (filter P'' cbs) = take m (filter P' cbs)"
    "priceCallbacks (foldl runAction s' as) = priceCallbacks s'"
    "length (callbackArrays (foldl runAction s' as)) = length (callbackArrays s')"
    by blast
  with tk' show ?case
    by (intro exI[of _ P'']) (simp add: act s'_def[symmetric], simp add: s'_def)
qed

lemma forEach_removing_later:
  assumes "registryWellFormed s" and "map_of (priceCallbacks s) symb = Some a"
    and "cbs = callbackArrays s ! a" and "distinct cbs"
    and "onlyUnsubscribes beh p cbs" and "removesLaterOnly beh p symb cbs"
    and "n \<le> length cbs"
  shows "\<exists>P. callbackArrays (foldl (forEachStep beh a p) s [0..<n]) ! a = filter P cbs
            \<and> priceCallbacks (foldl (forEachStep beh a p) s [0..<n]) = priceCallbacks s
            \<and> length (callbackArrays (foldl (forEachStep beh a p) s [0..<n]))
                = length (callbackArrays s)
            \<and> priceDelivered (foldl (forEachStep beh a p) s [0..<n])
                = priceDelivered s @ map (\<lambda>c. (c, p)) (take n (filter P cbs))"
  using assms(7)
proof (induction n)
  case 0
  have "callbackArrays s ! a = filter (\<lambda>c. True) cbs" by (simp add: assms(3))
  then show ?case by (intro exI[of _ "\<lambda>c. True"]) simp
next
  case (Suc n)
  define t where "t = foldl (forEachStep beh a p) s [0..<n]"
  from Suc obtain P where
    cur: "callbackArrays t ! a = filter P cbs"
    and tab: "priceCallbacks t = priceCallbacks s"
    and len: "length (callbackArrays t) = length (callbackArrays s)"
    and del: "priceDelivered t = priceDelivered s @ map (\<lambda>c. (c, p)) (take n (filter P cbs))"
    unfolding t_def by auto
  have step: "foldl (forEachStep beh a p) s [0..<Suc n] = forEachStep beh a p t n"
    by (simp add: t_def)
  show ?case
  proof (cases "n < length (filter P cbs)")
    case False
    then have same: "forEachStep beh a p t n = t" by (simp add: forEachStep_def cur)
    from False have "take (Suc n) (filter P cbs) = take n (filter P cbs)" by simp
    with cur tab len del show ?thesis unfolding step same by (intro exI[of _ P]) simp
  next
    case True
    define c where "c = filter P cbs ! n"
    define t0 where "t0 = t\<lparr>priceDelivered := priceDelivered t @ [(c, p)]\<rparr>"
    have st: "forEachStep beh a p t n = foldl runAction t0 (beh c p)"
      using True by (simp add: forEachStep_def cur c_def invoke_def t0_def)
    from take_filter_prefix[OF True] obtain i where
      i: "i < length cbs" and ci: "cbs ! i = c"
      and pre: "take (Suc n) (filter P cbs) = filter P (take (Suc i) cbs)"
      unfolding c_def by blast
    have acts: "list_all isUnsubscribe (beh c p)"
      using assms(5) i ci by (auto simp: onlyUnsubscribes_def list_all_iff)
    have "\<forall>x \<in> set (take (Suc i) cbs). Unsubscribe symb x \<notin> set (beh c p)"
      using assms(6) i ci by (auto simp: removesLaterOnly_def list_all_iff)
    then have safe: "\<forall>x \<in> set (take (Suc n) (filter P cbs)). Unsubscribe symb x \<notin> set (beh c p)"
      unfolding pre by auto
    have wf0: "registryWellFormed t0"
      using assms(1) tab len by (simp add: registryWellFormed_def t0_def)
    have ent0: "map_of (priceCallbacks t0) symb = Some a" using assms(2) tab by (simp add: t0_def)
    have cur0: "callbackArrays t0 ! a = filter P cbs" using cur by (simp add: t0_def)
    from unsubscribes_behind[OF wf0 ent0 assms(4) cur0 acts safe] obtain P' where
      cur': "callbackArrays (foldl runAction t0 (beh c p)) ! a = filter P' cbs"
      and tk: "take (Suc n) (filter P' cbs) = take (Suc n) (filter P cbs)"
      and tab': "priceCallbacks (foldl runAction t0 (beh c p)) = priceCallbacks t0"
      and len': "length (callbackArrays (foldl runAction t0 (beh c p))) = length (callbackArrays t0)"
      by blast
    have "take (Suc n) (filter P cbs) = take n (filter P cbs) @ [c]"
      using True by (simp add: take_Suc_conv_app_nth c_def)
    then have del': "priceDelivered (foldl runAction t0 (beh c p))
                       = priceDelivered s @ map (\<lambda>c. (c, p)) (take (Suc n) (filter P' cbs))"
      by (simp add: tk del t0_def)
    from cur' tab' len' del' tab len show ?thesis
      unfolding step st by (intro exI[of _ P']) (simp add: t0_def)
  qed
qed

text \<open>
  Claim C8, amended. Take a delivery to the callback list of a symbol in a well-formed
  registry (as in every state the service reaches), the list holding no callback twice, during which the callbacks of the list call
  nothing but unsubscribe functions. The delivery invokes only callbacks that were subscribed
  when it began and none of them twice. If moreover no callback of the list unsubscribes from
  it itself or a callback that stands before it, the callbacks invoked are exactly those
  still subscribed when the delivery ends, each once, in the order of the list: every
  callback that was subscribed at the start and not removed during the delivery is invoked
  exactly once. (The loop never reads outside the array; callbacks are taken not to throw.)
\<close>

theorem C8_delivery_under_removals:
  assumes "registryWellFormed s"
    and "distinct (callbacksOf s symb)"
    and "onlyUnsubscribes beh p (callbacksOf s symb)"
  shows "\<exists>D. priceDelivered (forEachCallback beh (map_of (priceCallbacks s) symb) p s)
               = priceDelivered s @ map (\<lambda>c. (c, p)) D
            \<and> distinct D \<and> set D \<subseteq> set (callbacksOf s symb)
            \<and> (removesLaterOnly beh p symb (callbacksOf s symb) \<longrightarrow>
                 D = callbacksOf (forEachCallback beh (map_of (priceCallbacks s) symb) p s) symb
                 \<and> D = filter (\<lambda>c. c \<in> set D) (callbacksOf s symb))"
proof (cases "map_of (priceCallbacks s) symb")
  case None
  then show ?thesis by (simp add: forEachCallback_def callbacksOf_def)
next
  case (Some a)
  define cbs where "cbs = callbackArrays s ! a"
  define s' where "s' = foldl (forEachStep beh a p) s [0..<length cbs]"
  have cb: "callbacksOf s symb = cbs" using Some by (simp add: callbacksOf_def cbs_def)
  have fe: "forEachCallback beh (map_of (priceCallbacks s) symb) p s = s'"
    using Some by (simp add: forEachCallback_def s'_def cbs_def)
  have va: "a < length (callbackArrays s)" using assms(1) Some by (rule address_valid)
  have d: "distinct cbs" using assms(2) cb by simp
  have only: "onlyUnsubscribes beh p cbs" using assms(3) cb by simp
  from forEach_unsubscribing[OF va cbs_def only, of "length cbs"] d obtain D where
    del: "priceDelivered s' = priceDelivered s @ map (\<lambda>c. (c, p)) D"
    and sub: "set D \<subseteq> set cbs" and dis: "distinct D"
    unfolding s'_def by auto
  have later: "D = callbacksOf s' symb \<and> D = filter (\<lambda>c. c \<in> set D) cbs"
    if l: "removesLaterOnly beh p symb cbs"
  proof -
    from forEach_removing_later[OF assms(1) Some cbs_def d only l, of "length cbs"] obtain P where
      cur: "callbackArrays s' ! a = filter P cbs"
      and tab: "priceCallbacks s' = priceCallbacks s"
      and del2: "priceDelivered s' = priceDelivered s @ map (\<lambda>c. (c, p)) (take (length cbs) (filter P cbs))"
      unfolding s'_def by auto
    have "length (filter P cbs) \<le> length cbs" by simp
    then have "take (length cbs) (filter P cbs) = filter P cbs" by simp
    with del del2 have "map (\<lambda>c. (c, p)) D = map (\<lambda>c. (c, p)) (filter P cbs)" by simp
    then have D: "D = filter P cbs" by (simp add: inj_map_eq_map inj_on_def)
    have "callbacksOf s' symb = filter P cbs" using tab Some cur by (simp add: callbacksOf_def)
    moreover have "filter P cbs = filter (\<lambda>c. c \<in> set (filter P cbs)) cbs"
      by (rule filter_cong) auto
    ultimately show ?thesis using D by simp
  qed
  from del dis sub later show ?thesis unfolding fe cb by blast
qed

text \<open>
  Three subscribers, the first of which unsubscribes the third (and a callback of a symbol
  that has no list): the first two are invoked once, in order, and they are the subscribers
  that remain.
\<close>

theorem C8_delivery_under_removals_witness:
  "(let s = onPriceUpdate ''BTC'' 13 (onPriceUpdate ''BTC'' 12 (onPriceUpdate ''BTC'' 11 newService));
        s' = forEachCallback removingLater (map_of (priceCallbacks s) ''BTC'') btcTick s
    in registryWellFormed s
       \<and> callbacksOf s ''BTC'' = [11, 12, 13]
       \<and> onlyUnsubscribes removingLater btcTick (callbacksOf s ''BTC'')
       \<and> removesLaterOnly removingLater btcTick ''BTC'' (callbacksOf s ''BTC'')
       \<and> callbacksOf s' ''BTC'' = [11, 12]
       \<and> priceDelivered s' = [(11, btcTick), (12, btcTick)])"
proof -
  define s where "s = onPriceUpdate ''BTC'' 13 (onPriceUpdate ''BTC'' 12 (onPriceUpdate ''BTC'' 11 newService))"
  define s' where "s' = forEachCallback removingLater (map_of (priceCallbacks s) ''BTC'') btcTick s"
  have wf: "registryWellFormed s" by (simp add: s_def registry_defs)
  have cbs: "callbacksOf s ''BTC'' = [11, 12, 13]" by (simp add: s_def registry_defs)
  have old: "priceDelivered s = []" by (simp add: s_def registry_defs)
  have d: "distinct (callbacksOf s ''BTC'')" by (simp add: cbs)
  have only: "onlyUnsubscribes removingLater btcTick (callbacksOf s ''BTC'')"
    by (simp add: cbs onlyUnsubscribes_def removingLater_def)
  have later: "removesLaterOnly removingLater btcTick ''BTC'' (callbacksOf s ''BTC'')"
    by (simp add: cbs removesLaterOnly_def removingLater_def upt_rec)
  have after: "callbacksOf s' ''BTC'' = [11, 12]"
    by (simp add: s'_def s_def removingLater_def registry_defs upt_rec)
  from C8_delivery_under_removals[OF wf d only] later after old
  have "priceDelivered s' = [(11, btcTick), (12, btcTick)]"
    unfolding s'_def[symmetric] by auto
  with wf cbs only later after show ?thesis
    unfolding Let_def s_def[symmetric] s'_def[symmetric] by blast
qed

text \<open>
  Claim C8 as stated fails. Of two subscribers, let the first unsubscribe itself when
  invoked: \<^verbatim>\<open>forEach\<close> then finds the array one element shorter and never visits index 1,
  so the second subscriber, still subscribed after the delivery, is not invoked. And let the
  first unsubscribe itself and register again: it then stands at index 1 and is invoked a
  second time, while the second subscriber is passed over.
\<close>

theorem C8_self_unsubscribe_skips_next_counterexample:
  "(let s = onPriceUpdate ''BTC'' 12 (onPriceUpdate ''BTC'' 11 newService);
        s' = handlePriceUpdate selfRemoving btcTick s;
        s'' = handlePriceUpdate reRegistering btcTick s
    in callbacksOf s ''BTC'' = [11, 12]
       \<and> callbacksOf s' ''BTC'' = [12] \<and> map fst (priceDelivered s') = [11]
       \<and> callbacksOf s'' ''BTC'' = [12, 11] \<and> map fst (priceDelivered s'') = [11, 11])"
  by (simp add: selfRemoving_def reRegistering_def registry_defs upt_rec)

section \<open>Properties of the connection manager\<close>

lemma status_after_update:
  "map_of (connectionStatus (updateConnectionStatus exch st lat err n s)) exch
     = Some \<lparr>exchange = exch, state = st, lastUpdate = clock s, statusLatency = lat,
              reconnectAttempts = n, error = err\<rparr>"
  by (simp add: updateConnectionStatus_def Let_def update_conv')

lemma timers_updateConnectionStatus [simp]:
  "timers (updateConnectionStatus exch st lat err n s) = timers s"
  by (simp add: updateConnectionStatus_def Let_def)

lemma timers_setReadyState [simp]: "timers (setReadyState w r s) = timers s"
  by (simp add: setReadyState_def)

lemma scheduleReconnection_after_update:
  "timers (scheduleReconnection exch (updateConnectionStatus exch st lat err 0 s))
     = timers s @ [\<lparr>delay = 1000, timerExchange = exch, timerAttempts = 1, pending = True\<rparr>]"
  by (simp add: scheduleReconnection_def status_after_update Let_def)

text \<open>
  Every call of \<open>scheduleReconnection\<close> in the source follows a call of
  \<open>updateConnectionStatus\<close> for the same exchange that leaves the attempt count at its
  default \<open>0\<close>; so every timer it sets has attempt number 1 and delay 1000 ms.
\<close>

lemma onclose_schedules_one_second:
  "code \<noteq> 1000 \<Longrightarrow>
   timers (onclose w code s)
     = timers s @ [\<lparr>delay = 1000, timerExchange = wsExchange (sockets s ! w),
                     timerAttempts = 1, pending = True\<rparr>]"
  by (simp add: onclose_def Let_def scheduleReconnection_after_update)

lemma connect_failure_schedules_one_second:
  "timers (connectToExchange exch False s)
     = timers s @ [\<lparr>delay = 1000, timerExchange = exch, timerAttempts = 1, pending = True\<rparr>]"
  by (simp add: connectToExchange_def Let_def scheduleReconnection_after_update)

lemmas connection_defs = subscribe_def exchanges_def connectToExchange_def
  updateConnectionStatus_def scheduleReconnection_def onclose_def onopen_def onerror_def
  timerFires_def setReadyState_def run_def newService_def allCreated_def Let_def
  disconnect_def closeIfOpen_def clearTimeout_def

lemma subscribed_state:
  "subscribe allCreated newService =
     newService\<lparr>connections := [(''binance'', 0), (''coinbase'', 1), (''kraken'', 2)],
       connectionStatus :=
         [(''binance'', \<lparr>exchange = ''binance'', state = CONNECTING, lastUpdate = 0,
             statusLatency = Num 0, reconnectAttempts = 0, error = None\<rparr>),
          (''coinbase'', \<lparr>exchange = ''coinbase'', state = CONNECTING, lastUpdate = 0,
             statusLatency = Num 0, reconnectAttempts = 0, error = None\<rparr>),
          (''kraken'', \<lparr>exchange = ''kraken'', state = CONNECTING, lastUpdate = 0,
             statusLatency = Num 0, reconnectAttempts = 0, error = None\<rparr>)],
       sockets := [\<lparr>readyState = WS_CONNECTING, wsExchange = ''binance''\<rparr>,
                   \<lparr>readyState = WS_CONNECTING, wsExchange = ''coinbase''\<rparr>,
                   \<lparr>readyState = WS_CONNECTING, wsExchange = ''kraken''\<rparr>]\<rparr>"
  by (simp add: connection_defs)

text \<open>
  Claim C4 on the code: three consecutive failures of one adapter with no successful connection
  in between (the socket closes with code 1006, the timer fires and a new socket is created,
  which closes with 1006 again, and so on). The three delays scheduled are 1000, 1000 and
  1000 ms where the claim has 1000, 2000 and 4000 ms; each timer records attempt 1, and the
  attempt count kept in the status is back at 0 without any Connected transition.
\<close>

theorem C4_reconnect_delay_stays_one_second:
  "(let s = run rt beh (subscribe allCreated newService)
              [Closed 0 1006, TimerFired 0 True, Closed 3 1006, TimerFired 1 True, Closed 4 1006]
    in map delay (timers s) = [1000, 1000, 1000]
       \<and> map timerAttempts (timers s) = [1, 1, 1]
       \<and> map_option reconnectAttempts (map_of (connectionStatus s) ''binance'') = Some 0)"
  by (simp add: subscribed_state) (simp add: connection_defs)

text \<open>
  Claim C6 on the code. \<open>disconnect\<close> right after \<open>subscribe\<close>, before any socket has
  opened, invokes \<^verbatim>\<open>close\<close> on none of the three connections the service opened: they
  stay in the state \<^verbatim>\<open>CONNECTING\<close>, where the claim, the comment of the source
  (\<^verbatim>\<open>Close all connections\<close>) and the tests of the repository have every connection closed.
  And \<open>disconnect\<close> called by a price callback during a delivery clears the table but not
  the array being iterated: the callback that follows in the array is still invoked.
\<close>

theorem C6_disconnect_leaves_connecting_sockets_open:
  "(let s = subscribe allCreated newService
    in map snd (connections s) = [0, 1, 2]
       \<and> map readyState (sockets s) = [WS_CONNECTING, WS_CONNECTING, WS_CONNECTING]
       \<and> closeCalls (disconnect s) = []
       \<and> map readyState (sockets (disconnect s)) = [WS_CONNECTING, WS_CONNECTING, WS_CONNECTING])
   \<and> (let s = onPriceUpdate ''BTC'' 12 (onPriceUpdate ''BTC'' 11 newService);
           s' = handlePriceUpdate shuttingDown btcTick s
       in callbacksOf s ''BTC'' = [11, 12]
          \<and> priceCallbacks s' = []
          \<and> map fst (priceDelivered s') = [11, 12])"
proof -
  have a: "(let s = subscribe allCreated newService
    in map snd (connections s) = [0, 1, 2]
       \<and> map readyState (sockets s) = [WS_CONNECTING, WS_CONNECTING, WS_CONNECTING]
       \<and> closeCalls (disconnect s) = []
       \<and> map readyState (sockets (disconnect s)) = [WS_CONNECTING, WS_CONNECTING, WS_CONNECTING])"
    by (simp add: subscribed_state) (simp add: connection_defs)
  have b: "(let s = onPriceUpdate ''BTC'' 12 (onPriceUpdate ''BTC'' 11 newService);
           s' = handlePriceUpdate shuttingDown btcTick s
       in callbacksOf s ''BTC'' = [11, 12]
          \<and> priceCallbacks s' = []
          \<and> map fst (priceDelivered s') = [11, 12])"
    by (simp add: shuttingDown_def registry_defs disconnect_def upt_rec)
  from a b show ?thesis by (rule conjI)
qed

section \<open>Properties of the message decoders\<close>

lemmas decoder_defs = parseBinanceMessage_def parseCoinbaseMessage_def parseKrakenMessage_def
  findOriginalSymbol_def exchanges_def nullish_def orZero_def idleRuntime_def

text \<open>
  Claim C3 on the code. A ticker frame of a mapped symbol with no price field is not dropped:
  the Kraken decoder returns a tick of price \<open>0\<close>, the Binance and Coinbase decoders a tick
  of price NaN, and a Binance frame with the price \<open>-5\<close> gives a tick of price \<open>-5\<close>. After
  the Kraken frame and then the Binance frame have been handled, both ticks are in the cache
  and a callback registered for the symbol has been invoked with each of them, where the
  claim, and the tests of the repository, have no callback invoked with incomplete data.
\<close>

theorem C3_missing_price_reaches_callbacks:
  "parseKrakenMessage idleRuntime 7 krakenFrameNoPrice
     = Inr (Some \<lparr>symbol = ''BTC'', price = Num 0, timestamp = Num 7, change24h = Num 0,
                  volume24h = Num 340, source = ''kraken'', latency = Num 0, confidence = 80\<rparr>)
   \<and> parseBinanceMessage idleRuntime binanceFrameNoPrice
     = Inr (Some \<lparr>symbol = ''BTC'', price = NaN, timestamp = Num 1000, change24h = NaN,
                  volume24h = NaN, source = ''binance'', latency = Num 0, confidence = 95\<rparr>)
   \<and> parseCoinbaseMessage idleRuntime coinbaseFrameNoPrice
     = Inr (Some \<lparr>symbol = ''ETH'', price = NaN, timestamp = NaN, change24h = Num 0,
                  volume24h = NaN, source = ''coinbase'', latency = Num 0, confidence = 90\<rparr>)
   \<and> parseBinanceMessage idleRuntime binanceFrameNegative
     = Inr (Some \<lparr>symbol = ''BTC'', price = Num (- 5), timestamp = Num 1000, change24h = NaN,
                  volume24h = NaN, source = ''binance'', latency = Num 0, confidence = 95\<rparr>)
   \<and> (let s = run idleRuntime silent
                 (subscribe allCreated (onPriceUpdate ''BTC'' 4 newService))
                 [Opened 2, Message 2 (Some krakenFrameNoPrice) 3,
                  Opened 0, Message 0 (Some binanceFrameNoPrice) 3]
       in map (\<lambda>(key, update). (key, price update)) (priceCache s)
            = [(''BTC_kraken'', Num 0), (''BTC_binance'', NaN)]
          \<and> map (\<lambda>(callback, update). (callback, source update, price update)) (priceDelivered s)
               = [(4, ''kraken'', Num 0), (4, ''binance'', NaN)])"
proof -
  have k: "parseKrakenMessage idleRuntime 7 krakenFrameNoPrice
     = Inr (Some \<lparr>symbol = ''BTC'', price = Num 0, timestamp = Num 7, change24h = Num 0,
                  volume24h = Num 340, source = ''kraken'', latency = Num 0, confidence = 80\<rparr>)"
    by (simp add: decoder_defs krakenFrameNoPrice_def binanceFrameNoPrice_def
          coinbaseFrameNoPrice_def binanceFrameNegative_def)
  have b: "parseBinanceMessage idleRuntime binanceFrameNoPrice
     = Inr (Some \<lparr>symbol = ''BTC'', price = NaN, timestamp = Num 1000, change24h = NaN,
                  volume24h = NaN, source = ''binance'', latency = Num 0, confidence = 95\<rparr>)"
    by (simp add: decoder_defs krakenFrameNoPrice_def binanceFrameNoPrice_def
          coinbaseFrameNoPrice_def binanceFrameNegative_def)
  have c: "parseCoinbaseMessage idleRuntime coinbaseFrameNoPrice
     = Inr (Some \<lparr>symbol = ''ETH'', price = NaN, timestamp = NaN, change24h = Num 0,
                  volume24h = NaN, source = ''coinbase'', latency = Num 0, confidence = 90\<rparr>)"
    by (simp add: decoder_defs krakenFrameNoPrice_def binanceFrameNoPrice_def
          coinbaseFrameNoPrice_def binanceFrameNegative_def)
  have n: "parseBinanceMessage idleRuntime binanceFrameNegative
     = Inr (Some \<lparr>symbol = ''BTC'', price = Num (- 5), timestamp = Num 1000, change24h = NaN,
                  volume24h = NaN, source = ''binance'', latency = Num 0, confidence = 95\<rparr>)"
    by (simp add: decoder_defs krakenFrameNoPrice_def binanceFrameNoPrice_def
          coinbaseFrameNoPrice_def binanceFrameNegative_def)
  have k0: "parseKrakenMessage idleRuntime 0 krakenFrameNoPrice
     = Inr (Some \<lparr>symbol = ''BTC'', price = Num 0, timestamp = Num 0, change24h = Num 0,
                  volume24h = Num 340, source = ''kraken'', latency = Num 0, confidence = 80\<rparr>)"
    by (simp add: decoder_defs krakenFrameNoPrice_def binanceFrameNoPrice_def
          coinbaseFrameNoPrice_def binanceFrameNegative_def)
  have s0: "subscribe allCreated (onPriceUpdate ''BTC'' 4 newService)
              = (subscribe allCreated newService)\<lparr>priceCallbacks := [(''BTC'', 0)],
                                                   callbackArrays := [[4]]\<rparr>"
    by (simp add: connection_defs onPriceUpdate_def push_def)
  have run: "(let s = run idleRuntime silent
                 (subscribe allCreated (onPriceUpdate ''BTC'' 4 newService))
                 [Opened 2, Message 2 (Some krakenFrameNoPrice) 3,
                  Opened 0, Message 0 (Some binanceFrameNoPrice) 3]
       in map (\<lambda>(key, update). (key, price update)) (priceCache s)
            = [(''BTC_kraken'', Num 0), (''BTC_binance'', NaN)]
          \<and> map (\<lambda>(callback, update). (callback, source update, price update)) (priceDelivered s)
               = [(4, ''kraken'', Num 0), (4, ''binance'', NaN)])"
    unfolding s0 subscribed_state
    by (simp add: run_def onopen_def setReadyState_def newService_def updateConnectionStatus_def
          onmessage_def messageParser_def k0 b handlePriceUpdate_def aggregatePriceData_def
          collectSources_def startsWith_def isFresh_def fl_sub_def js_sub_def
          forEachCallback_def forEachStep_def invoke_def silent_def calculateConfidence_def
          fl_add_def fl_div_def js_div_def js_gt_def Let_def upt_rec)
  from k b c n run show ?thesis by (simp only: )
qed

section \<open>Reachable states are well formed\<close>

text \<open>
  A socket gets its identifier when it is created and is stored under the name of its
  exchange, replacing the exchange's earlier socket; a symbol gets a new array when the table
  has none for it; a tick is cached under its symbol, which comes from the symbol map of its
  exchange, and the name of that exchange.
\<close>

lemma update_all:
  "list_all P al \<Longrightarrow> P (k, v) \<Longrightarrow> list_all P (AList.update k v al)"
  by (induction al) auto

lemma exchangeNames_plain: "exch \<in> set exchangeNames \<Longrightarrow> CHR ''_'' \<notin> set exch"
  by (auto simp: exchangeNames_def exchanges_def)

lemma symbols_plain:
  "\<forall>e \<in> set exchanges. \<forall>m \<in> set (symbolMapping e). CHR ''_'' \<notin> set (fst m)"
  by (simp add: exchanges_def)

lemma find_mem: "find P xs = Some x \<Longrightarrow> x \<in> set xs"
  by (induction xs) (auto split: if_splits)

lemma findOriginalSymbol_plain:
  assumes "findOriginalSymbol exch v = Some symb"
  shows "CHR ''_'' \<notin> set symb"
proof -
  from assms obtain e m where e: "find (\<lambda>e. exchangeName e = exch) exchanges = Some e"
    and m: "find (\<lambda>(original, mapped). JString mapped = v) (symbolMapping e) = Some m"
    and symb: "symb = fst m"
    by (auto simp: findOriginalSymbol_def split: option.splits)
  from e have "e \<in> set exchanges" by (rule find_mem)
  moreover from m have "m \<in> set (symbolMapping e)" by (rule find_mem)
  ultimately show ?thesis using symbols_plain symb by blast
qed

lemma parseBinanceMessage_symbol:
  "parseBinanceMessage rt data = Inr (Some u) \<Longrightarrow> CHR ''_'' \<notin> set (symbol u)"
  by (auto simp: parseBinanceMessage_def dest: findOriginalSymbol_plain
        split: if_splits option.splits)

lemma parseCoinbaseMessage_symbol:
  "parseCoinbaseMessage rt data = Inr (Some u) \<Longrightarrow> CHR ''_'' \<notin> set (symbol u)"
  by (auto simp: parseCoinbaseMessage_def dest: findOriginalSymbol_plain
        split: if_splits option.splits)

lemma parseKrakenMessage_symbol:
  "parseKrakenMessage rt now data = Inr (Some u) \<Longrightarrow> CHR ''_'' \<notin> set (symbol u)"
  by (auto simp: parseKrakenMessage_def dest: findOriginalSymbol_plain
        split: if_splits option.splits jsvalue.splits)

lemma messageParser_symbol:
  "messageParser exch rt now data = Inr (Some u) \<Longrightarrow> CHR ''_'' \<notin> set (symbol u)"
  by (auto simp: messageParser_def parseBinanceMessage_symbol parseCoinbaseMessage_symbol
        parseKrakenMessage_symbol split: if_splits)

lemma wellFormed_same:
  assumes "wellFormed s"
    and "connections t = connections s" and "length (sockets t) = length (sockets s)"
    and "map wsExchange (sockets t) = map wsExchange (sockets s)"
    and "map timerExchange (timers t) = map timerExchange (timers s)"
    and "priceCallbacks t = priceCallbacks s" and "callbackArrays t = callbackArrays s"
    and "priceCache t = priceCache s"
  shows "wellFormed t"
proof -
  have "list_all (\<lambda>w. wsExchange w \<in> set exchangeNames) (sockets t)
        = list_all (\<lambda>e. e \<in> set exchangeNames) (map wsExchange (sockets t))"
    by (simp add: list_all_iff)
  moreover have "list_all (\<lambda>w. wsExchange w \<in> set exchangeNames) (sockets s)
        = list_all (\<lambda>e. e \<in> set exchangeNames) (map wsExchange (sockets s))"
    by (simp add: list_all_iff)
  moreover have "list_all (\<lambda>t. timerExchange t \<in> set exchangeNames) (timers t)
        = list_all (\<lambda>e. e \<in> set exchangeNames) (map timerExchange (timers t))"
    by (simp add: list_all_iff)
  moreover have "list_all (\<lambda>t. timerExchange t \<in> set exchangeNames) (timers s)
        = list_all (\<lambda>e. e \<in> set exchangeNames) (map timerExchange (timers s))"
    by (simp add: list_all_iff)
  ultimately show ?thesis
    using assms by (simp add: wellFormed_def registryWellFormed_def)
qed

lemma wf_updateConnectionStatus:
  "wellFormed s \<Longrightarrow> wellFormed (updateConnectionStatus exch st lat err n s)"
  by (rule wellFormed_same[of s]) (simp_all add: updateConnectionStatus_def Let_def)

lemma wf_scheduleReconnection:
  assumes "wellFormed s" and "exch \<in> set exchangeNames"
  shows "wellFormed (scheduleReconnection exch s)"
  using assms by (simp add: wellFormed_def registryWellFormed_def scheduleReconnection_def Let_def)

lemma map_update_same:
  assumes "f v = f (xs ! i)"
  shows "map f (xs[i := v]) = map f xs"
proof (cases "i < length xs")
  case True
  with assms have "map f (xs[i := v]) = (map f xs)[i := map f xs ! i]"
    by (simp add: map_update)
  then show ?thesis by simp
next
  case False
  then show ?thesis by (simp add: list_update_beyond)
qed

lemma wf_setReadyState: "wellFormed s \<Longrightarrow> wellFormed (setReadyState w r s)"
  by (rule wellFormed_same[of s]) (simp_all add: setReadyState_def map_update_same)

lemma wf_connectToExchange:
  assumes "wellFormed s" and "exch \<in> set exchangeNames"
  shows "wellFormed (connectToExchange exch created s)"
proof -
  define s1 where "s1 = updateConnectionStatus exch CONNECTING (Num 0) None 0 s"
  have wf1: "wellFormed s1" unfolding s1_def using assms(1) by (rule wf_updateConnectionStatus)
  show ?thesis
  proof (cases created)
    case False
    then have "connectToExchange exch created s =
                 scheduleReconnection exch
                   (updateConnectionStatus exch ERROR (Num 0) (Some ''Connection failed'') 0 s1)"
      by (simp add: connectToExchange_def s1_def Let_def)
    with wf1 assms(2) show ?thesis by (simp add: wf_scheduleReconnection wf_updateConnectionStatus)
  next
    case True
    let ?n = "length (sockets s1)"
    from wf1 have d: "distinct (map snd (connections s1))"
      and r: "\<forall>w \<in> set (map snd (connections s1)). w < ?n"
      by (simp_all add: wellFormed_def list_all_iff)
    from r have fresh: "?n \<notin> set (map snd (connections s1))" by auto
    have d': "distinct (map snd (AList.update exch ?n (connections s1)))"
      using d fresh by (rule update_distinct_values)
    have r': "\<forall>w \<in> set (map snd (AList.update exch ?n (connections s1))). w < Suc ?n"
      using update_values[of exch ?n "connections s1"] r by fastforce
    from True d' r' wf1 assms(2) show ?thesis
      by (simp add: connectToExchange_def s1_def[symmetric] Let_def wellFormed_def list_all_iff
            registryWellFormed_def)
  qed
qed

lemma wf_unsubscribe': "wellFormed s \<Longrightarrow> wellFormed (unsubscribe symb cb s)"
  by (simp add: wellFormed_def wf_unsubscribe)

lemma timers_onPriceUpdate [simp]: "timers (onPriceUpdate symb cb s) = timers s"
  by (simp add: onPriceUpdate_def push_def Let_def split: option.splits)

lemma wf_onPriceUpdate': "wellFormed s \<Longrightarrow> wellFormed (onPriceUpdate symb cb s)"
  by (simp add: wellFormed_def wf_onPriceUpdate)

lemma timers_clearTimeout:
  "timers (clearTimeout s t) = (timers s)[t := (timers s ! t)\<lparr>pending := False\<rparr>]"
  by (simp add: clearTimeout_def)

lemma names_closeAll:
  "map wsExchange (sockets (foldl closeIfOpen s ws)) = map wsExchange (sockets s)"
  by (induction ws arbitrary: s) (simp_all add: closeIfOpen_def setReadyState_def map_update_same)

lemma names_clearAll:
  "map timerExchange (timers (foldl clearTimeout s ts)) = map timerExchange (timers s)"
  by (induction ts arbitrary: s) (simp_all add: timers_clearTimeout map_update_same)

lemma wf_disconnect: "wellFormed s \<Longrightarrow> wellFormed (disconnect s)"
proof -
  assume wf: "wellFormed s"
  have "list_all (\<lambda>w. wsExchange w \<in> set exchangeNames) (sockets (disconnect s))
        = list_all (\<lambda>e. e \<in> set exchangeNames) (map wsExchange (sockets (disconnect s)))"
    by (simp add: list_all_iff)
  moreover have "list_all (\<lambda>t. timerExchange t \<in> set exchangeNames) (timers (disconnect s))
        = list_all (\<lambda>e. e \<in> set exchangeNames) (map timerExchange (timers (disconnect s)))"
    by (simp add: list_all_iff)
  moreover have "map wsExchange (sockets (disconnect s)) = map wsExchange (sockets s)"
    by (simp add: disconnect_def Let_def names_closeAll)
  moreover have "map timerExchange (timers (disconnect s)) = map timerExchange (timers s)"
    by (simp add: disconnect_def Let_def names_clearAll)
  ultimately show ?thesis
    using wf disconnect_tables[of s]
    by (simp add: wellFormed_def registryWellFormed_def cacheKeyed_def list_all_iff)
qed

lemma sorted_names:
  "e \<in> set (sort_key priority exchanges) \<Longrightarrow> exchangeName e \<in> set exchangeNames"
  by (simp add: exchangeNames_def)

lemma wf_subscribeStart: "wellFormed s \<Longrightarrow> wellFormed (subscribeStart created s)"
proof -
  assume wf: "wellFormed s"
  show ?thesis
  proof (cases "sort_key priority exchanges")
    case Nil
    with wf show ?thesis by (simp add: subscribeStart_def)
  next
    case (Cons e es)
    then have "e \<in> set (sort_key priority exchanges)" by simp
    then have "exchangeName e \<in> set exchangeNames" by (rule sorted_names)
    with wf have "wellFormed (connectToExchange (exchangeName e) created s)"
      by (rule wf_connectToExchange)
    with Cons show ?thesis by (simp add: subscribeStart_def)
  qed
qed

lemma wf_subscribeResume: "wellFormed s \<Longrightarrow> wellFormed (subscribeResume i created s)"
proof (cases "0 < i \<and> i < length exchanges")
  case False
  assume "wellFormed s"
  with False show ?thesis by (auto simp: subscribeResume_def)
next
  case True
  assume wf: "wellFormed s"
  from True have "i < length (sort_key priority exchanges)" by simp
  then have "sort_key priority exchanges ! i \<in> set (sort_key priority exchanges)"
    by (rule nth_mem)
  then have "exchangeName (sort_key priority exchanges ! i) \<in> set exchangeNames"
    by (rule sorted_names)
  with wf have "wellFormed (connectToExchange (exchangeName (sort_key priority exchanges ! i)) created s)"
    by (rule wf_connectToExchange)
  with True show ?thesis by (simp add: subscribeResume_def)
qed

lemma wf_runAction: "wellFormed s \<Longrightarrow> wellFormed (runAction s a)"
proof (cases a)
  case (Unsubscribe symb cb)
  assume "wellFormed s"
  with Unsubscribe show ?thesis by (simp add: wf_unsubscribe')
next
  case (UnsubscribeStatus cb)
  assume "wellFormed s"
  then have "wellFormed (unsubscribeStatus cb s)"
    by (rule wellFormed_same) (simp_all add: unsubscribeStatus_def Let_def)
  with UnsubscribeStatus show ?thesis by simp
next
  case (OnPriceUpdate symb cb)
  assume "wellFormed s"
  with OnPriceUpdate show ?thesis by (simp add: wf_onPriceUpdate')
next
  case (OnStatusUpdate cb)
  assume "wellFormed s"
  then have "wellFormed (onStatusUpdate cb s)"
    by (rule wellFormed_same) (simp_all add: onStatusUpdate_def)
  with OnStatusUpdate show ?thesis by simp
next
  case Disconnect
  assume "wellFormed s"
  with Disconnect show ?thesis by (simp add: wf_disconnect)
next
  case (SubscribeCalled created)
  assume "wellFormed s"
  with SubscribeCalled show ?thesis by (simp add: wf_subscribeStart)
qed

lemma wf_runActions: "wellFormed s \<Longrightarrow> wellFormed (foldl runAction s as)"
  by (induction as arbitrary: s) (simp_all add: wf_runAction)

lemma wf_invoke: "wellFormed s \<Longrightarrow> wellFormed (invoke beh c p s)"
proof -
  assume "wellFormed s"
  then have "wellFormed (s\<lparr>priceDelivered := priceDelivered s @ [(c, p)]\<rparr>)"
    by (rule wellFormed_same) simp_all
  then show ?thesis unfolding invoke_def by (rule wf_runActions)
qed

lemma wf_forEachCallback: "wellFormed s \<Longrightarrow> wellFormed (forEachCallback beh callbacks p s)"
proof -
  have "wellFormed (foldl (forEachStep beh a p) s ks)" if "wellFormed s" for a ks s
    using that by (induction ks arbitrary: s) (simp_all add: forEachStep_def wf_invoke)
  then show "wellFormed s \<Longrightarrow> wellFormed (forEachCallback beh callbacks p s)"
    by (cases callbacks) (simp_all add: forEachCallback_def)
qed

lemma wf_handlePriceUpdate:
  assumes "wellFormed s" and "CHR ''_'' \<notin> set (symbol u)" and "CHR ''_'' \<notin> set (source u)"
  shows "wellFormed (handlePriceUpdate beh u s)"
proof -
  define s1 where "s1 = s\<lparr>priceCache := AList.update (symbol u @ ''_'' @ source u) u (priceCache s)\<rparr>"
  have "cacheKeyed (priceCache s1)"
    using assms unfolding s1_def cacheKeyed_def wellFormed_def
    by (simp add: update_all)
  then have wf1: "wellFormed s1" using assms(1) by (simp add: wellFormed_def s1_def registryWellFormed_def)
  have "handlePriceUpdate beh u s =
             (case fst (aggregatePriceData (symbol u) s1) of
                None \<Rightarrow> s1
              | Some best \<Rightarrow> forEachCallback beh (map_of (priceCallbacks s) (symbol u)) best s1)"
    unfolding s1_def by (simp only: handlePriceUpdate_forEach Let_def)
  with wf1 show ?thesis by (simp add: wf_forEachCallback split: option.splits)
qed

lemma socket_name:
  "wellFormed s \<Longrightarrow> w < length (sockets s) \<Longrightarrow> wsExchange (sockets s ! w) \<in> set exchangeNames"
  by (simp add: wellFormed_def list_all_length)

lemma timer_name:
  "wellFormed s \<Longrightarrow> t < length (timers s) \<Longrightarrow> timerExchange (timers s ! t) \<in> set exchangeNames"
  by (simp add: wellFormed_def list_all_length)

lemma wf_onmessage:
  assumes "wellFormed s" and "w < length (sockets s)"
  shows "wellFormed (onmessage rt beh w frame elapsed s)"
proof -
  define exch where "exch = wsExchange (sockets s ! w)"
  have ex: "exch \<in> set exchangeNames" unfolding exch_def using assms by (rule socket_name)
  have "wellFormed (updateConnectionStatus exch CONNECTED (Num elapsed) None 0
                      (handlePriceUpdate beh
                         (u\<lparr>source := exch, latency := Num elapsed,
                            confidence := calculateConfidence exch (Num elapsed)\<rparr>) s))"
    if "messageParser exch rt (clock s) data = Inr (Some u)" for data u
  proof -
    from that have "CHR ''_'' \<notin> set (symbol u)" by (rule messageParser_symbol)
    with ex assms(1) show ?thesis
      by (intro wf_updateConnectionStatus wf_handlePriceUpdate) (simp_all add: exchangeNames_plain)
  qed
  with assms(1) show ?thesis
    by (auto simp: onmessage_def exch_def[symmetric] Let_def split: option.splits sum.splits)
qed

lemma wf_step: "wellFormed s \<Longrightarrow> wellFormed (step rt beh s ev)"
proof (cases ev)
  case (Opened w)
  assume "wellFormed s"
  then show ?thesis using Opened
    by (simp add: onopen_def wf_updateConnectionStatus wf_setReadyState)
next
  case (Message w frame elapsed)
  assume "wellFormed s"
  then show ?thesis using Message by (simp add: wf_onmessage)
next
  case (Errored w)
  assume "wellFormed s"
  then show ?thesis using Errored by (simp add: onerror_def wf_updateConnectionStatus)
next
  case (Closed w code)
  assume wf: "wellFormed s"
  show ?thesis
  proof (cases "w < length (sockets s)")
    case False
    with wf Closed show ?thesis by simp
  next
    case True
    have "wsExchange (sockets s ! w) \<in> set exchangeNames" using wf True by (rule socket_name)
    with wf True Closed show ?thesis
      by (simp add: onclose_def Let_def wf_scheduleReconnection wf_updateConnectionStatus
            wf_setReadyState)
  qed
next
  case (TimerFired t created)
  assume wf: "wellFormed s"
  show ?thesis
  proof (cases "t < length (timers s) \<and> pending (timers s ! t)")
    case False
    with wf TimerFired show ?thesis by auto
  next
    case True
    have nm: "timerExchange (timers s ! t) \<in> set exchangeNames" using wf True by (simp add: timer_name)
    have "wellFormed (s\<lparr>timers := (timers s)[t := (timers s ! t)\<lparr>pending := False\<rparr>]\<rparr>)"
      using wf by (rule wellFormed_same) (simp_all add: map_update_same)
    with nm True TimerFired show ?thesis
      by (simp add: timerFires_def Let_def wf_connectToExchange wf_updateConnectionStatus)
  qed
next
  case (ClockAdvanced d)
  assume "wellFormed s"
  then have "wellFormed (s\<lparr>clock := clock s + \<bar>d\<bar>\<rparr>)" by (rule wellFormed_same) simp_all
  with ClockAdvanced show ?thesis by simp
next
  case (UnsubscribeCalled symb cb)
  assume "wellFormed s"
  then show ?thesis using UnsubscribeCalled by (simp add: wf_unsubscribe')
qed

lemma wf_subscribe: "wellFormed s \<Longrightarrow> wellFormed (subscribe created s)"
proof -
  have "wellFormed (foldl (\<lambda>s' e. connectToExchange (exchangeName e) (created (exchangeName e)) s') s es)"
    if "wellFormed s" and "set es \<subseteq> set exchanges" for es s
    using that
  proof (induction es arbitrary: s)
    case Nil
    then show ?case by simp
  next
    case (Cons e es)
    from Cons.prems(2) have "exchangeName e \<in> set exchangeNames" by (simp add: exchangeNames_def)
    with Cons.prems(1) have "wellFormed (connectToExchange (exchangeName e) (created (exchangeName e)) s)"
      by (rule wf_connectToExchange)
    with Cons show ?case by simp
  qed
  then show "wellFormed s \<Longrightarrow> wellFormed (subscribe created s)" by (simp add: subscribe_def)
qed

lemma wf_perform: "wellFormed s \<Longrightarrow> wellFormed (perform rt beh s c)"
  by (cases c) (simp_all add: wf_subscribe wf_runAction wf_subscribeResume wf_step)

text \<open>
  Every state a new service reaches by calls of its interface and events of its sockets and
  timers is well formed: its registry is well formed and its cache is keyed by symbol and
  source.
\<close>

lemma reachable_wellFormed: "wellFormed (foldl (perform rt beh) newService cs)"
proof (induction cs rule: rev_induct)
  case Nil
  show ?case by (simp add: wellFormed_def registryWellFormed_def cacheKeyed_def newService_def)
next
  case (snoc c cs)
  then show ?case by (simp add: wf_perform)
qed

lemma reachable_registry_and_cache:
  "registryWellFormed (foldl (perform rt beh) newService cs)
   \<and> cacheKeyed (priceCache (foldl (perform rt beh) newService cs))"
  using reachable_wellFormed[of rt beh cs] by (simp add: wellFormed_def)

end
